theory Spec2Isabelle
  imports Main "HOL-Library.AList"
begin

section \<open>Python values and text primitives used by DB.py\<close>

text \<open>
  The exceptions that the code of \<^verbatim>\<open>py/DB.py\<close> can meet: the \<^verbatim>\<open>IndexError\<close> of an
  out-of-range \<^verbatim>\<open>pop\<close> or index, the plain \<^verbatim>\<open>Exception\<close> that \<^verbatim>\<open>select_one\<close> raises with a
  message, and the errors of the sqlite3 module (\<^verbatim>\<open>OperationalError\<close> for a locked
  database or a statement that does not parse, \<^verbatim>\<open>IntegrityError\<close> for a violated key,
  \<^verbatim>\<open>ProgrammingError\<close> for a wrong number of bound values, \<^verbatim>\<open>OverflowError\<close> for an
  integer that does not fit). \<open>Outside_model\<close> is no exception: it is the answer of the
  engine model below to a statement that it does not cover.
\<close>

datatype py_error =
    IndexError
  | Exception string
  | OperationalError string
  | IntegrityError string
  | ProgrammingError string
  | OverflowError string
  | Outside_model

text \<open>
  A value bound to a placeholder or read from a column; \<open>Null\<close> is Python's \<^verbatim>\<open>None\<close>.
  \<open>Integer\<close> carries a Python integer, which has no bound; what the engine does with one
  that does not fit in 64 bits is part of the engine model (\<open>in_int64\<close>).
\<close>

datatype sql_value = Null | Integer int | Text string

abbreviation NL :: char where "NL \<equiv> CHR 0x0A"
abbreviation TAB :: char where "TAB \<equiv> CHR 0x09"

text \<open>\<^verbatim>\<open>s.split(sep)\<close> with a one-character separator: never empty, keeps empty fields.\<close>

fun py_split :: "char \<Rightarrow> string \<Rightarrow> string list" where
  "py_split sep [] = [[]]"
| "py_split sep (c # cs) =
     (if c = sep then [] # py_split sep cs
      else (case py_split sep cs of
              [] \<Rightarrow> [[c]]
            | w # ws \<Rightarrow> (c # w) # ws))"

text \<open>\<^verbatim>\<open>sep.join(xs)\<close>.\<close>

fun py_join :: "string \<Rightarrow> string list \<Rightarrow> string" where
  "py_join sep [] = []"
| "py_join sep [x] = x"
| "py_join sep (x # y # ys) = x @ sep @ py_join sep (y # ys)"

text \<open>\<^verbatim>\<open>s.lower()\<close> on a byte string: only the letters A to Z change.\<close>

definition lower_char :: "char \<Rightarrow> char" where
  "lower_char c =
     (case map_of (zip ''ABCDEFGHIJKLMNOPQRSTUVWXYZ'' ''abcdefghijklmnopqrstuvwxyz'') c of
        Some d \<Rightarrow> d
      | None \<Rightarrow> c)"

definition py_lower :: "string \<Rightarrow> string" where
  "py_lower s = map lower_char s"

text \<open>\<^verbatim>\<open>s.rjust(n)\<close>: pad with spaces on the left, never shorten.\<close>

definition rjust :: "nat \<Rightarrow> string \<Rightarrow> string" where
  "rjust n s = replicate (n - length s) CHR '' '' @ s"

text \<open>\<^verbatim>\<open>s.strip()\<close>: drop the whitespace at both ends.\<close>

definition is_space :: "char \<Rightarrow> bool" where
  "is_space c = (c \<in> set [CHR '' '', TAB, NL, CHR 0x0D, CHR 0x0B, CHR 0x0C])"

definition strip :: "string \<Rightarrow> string" where
  "strip s = rev (dropWhile is_space (rev (dropWhile is_space s)))"

text \<open>\<^verbatim>\<open>s.replace(a, b)\<close> for one-character \<open>a\<close>.\<close>

definition replace_char :: "char \<Rightarrow> string \<Rightarrow> string \<Rightarrow> string" where
  "replace_char a b s = concat (map (\<lambda>c. if c = a then b else [c]) s)"

section \<open>The connection\<close>

text \<open>
  What \<^verbatim>\<open>conn.commit()\<close> of the sqlite3 connection does at one call: it returns, or it
  raises. The store is shared with other processes, so the outcome of the n-th call is
  given by the environment, a function from the call's number.
\<close>

datatype commit_outcome = Commit_ok | Commit_raises py_error

text \<open>
  The state that the methods of class \<^verbatim>\<open>DB\<close> thread through: the contents of the store
  as the engine holds them (\<open>store\<close>), the number of calls of \<^verbatim>\<open>conn.commit()\<close> made so
  far, the time spent in \<^verbatim>\<open>sleep\<close> in milliseconds, and the texts handed to \<^verbatim>\<open>debug\<close>
  (which writes each with a time stamp and \<^verbatim>\<open>DB:\<close> in front).
\<close>

record 's db =
  store :: 's
  commit_calls :: nat
  slept_ms :: nat
  log :: "string list"

definition fresh :: "'s \<Rightarrow> 's db" where
  "fresh s = \<lparr>store = s, commit_calls = 0, slept_ms = 0, log = []\<rparr>"

definition debug :: "string \<Rightarrow> 's db \<Rightarrow> 's db" where
  "debug text st = st\<lparr>log := log st @ [text]\<rparr>"

text \<open>
  \<^verbatim>\<open>DB.commit\<close>: \<^verbatim>\<open>while True: try: self.conn.commit(); return\<close>, and a bare \<^verbatim>\<open>except:\<close>
  that writes a line, sleeps 0.1 s and loops. The loop has no bound, so the model is a
  partial function: \<open>None\<close> is the run that never returns.
\<close>

partial_function (option) commit :: "(nat \<Rightarrow> commit_outcome) \<Rightarrow> 's db \<Rightarrow> 's db option" where
  "commit env st =
     (case env (commit_calls st) of
        Commit_ok \<Rightarrow> Some (st\<lparr>commit_calls := Suc (commit_calls st)\<rparr>)
      | Commit_raises e \<Rightarrow>
          commit env
            (debug ''failed to commit, retrying...'' (st\<lparr>commit_calls := Suc (commit_calls st)\<rparr>)
               \<lparr>slept_ms := slept_ms st + 100\<rparr>))"

declare commit.simps [code]

text \<open>Environments for concrete runs: a script of outcomes followed by success, and a
  store that answers every call the same way.\<close>

definition scripted :: "commit_outcome list \<Rightarrow> nat \<Rightarrow> commit_outcome" where
  "scripted outs n = (if n < length outs then outs ! n else Commit_ok)"

definition always :: "commit_outcome \<Rightarrow> nat \<Rightarrow> commit_outcome" where
  "always out n = out"

section \<open>The engine\<close>

text \<open>
  The sqlite3 module is no part of the repository. What the code needs of it is
  \<^verbatim>\<open>cursor.execute(query, values)\<close>: given the statement's text, the bound values and the
  store, it raises or it yields a cursor (the rows that \<^verbatim>\<open>fetchone\<close> will hand out, and
  \<^verbatim>\<open>lastrowid\<close>) and the changed store. The methods of \<^verbatim>\<open>DB\<close> take the engine as a
  parameter.
\<close>

record cursor =
  result_rows :: "sql_value list list"
  lastrowid :: "int option"

type_synonym 's engine = "string \<Rightarrow> sql_value list \<Rightarrow> 's \<Rightarrow> py_error + (cursor \<times> 's)"

text \<open>
  An engine for concrete runs of the start-up code: it accepts every statement, returns
  no row, and keeps the statements it was given, in order.
\<close>

definition journal :: "((string \<times> sql_value list) list) engine" where
  "journal query vals s = Inr (\<lparr>result_rows = [], lastrowid = None\<rparr>, s @ [(query, vals)])"

section \<open>Schema compilation: create\_table\<close>

text \<open>
  The first loop of \<^verbatim>\<open>create_table\<close>, over \<^verbatim>\<open>schema.split(',')\<close>, with its three
  variables \<^verbatim>\<open>hit_keys\<close>, \<^verbatim>\<open>rows\<close> and \<^verbatim>\<open>keys\<close>. A fragment whose first field is
  \<^verbatim>\<open>primary\<close> or \<^verbatim>\<open>foreign\<close> (in any case) sets \<^verbatim>\<open>hit_keys\<close>; from then on every fragment
  goes to \<^verbatim>\<open>keys\<close> as it is. Before that a fragment becomes a column line: its first
  field right-justified to 16, a space, and the other fields joined and stripped.
\<close>

fun scan_rows ::
  "bool \<Rightarrow> string list \<Rightarrow> string list \<Rightarrow> string list \<Rightarrow> py_error + (string list \<times> string list)"
where
  "scan_rows hit_keys rows keys [] = Inr (rows, keys)"
| "scan_rows hit_keys rows keys (row # rest) =
     (case py_split CHR '' '' row of
        [] \<Rightarrow> Inl IndexError
      | f # fs \<Rightarrow>
          (let hit = (hit_keys \<or> py_lower f \<in> set [''primary'', ''foreign'']) in
           if hit then scan_rows hit rows (keys @ [row]) rest
           else scan_rows hit (rows @ [rjust 16 f @ '' '' @ strip (py_join '' '' fs)]) keys rest))"

text \<open>\<^verbatim>\<open>xs.pop(i)\<close> for \<open>i \<ge> 0\<close>: the element and the list without it, or IndexError.\<close>

definition pop :: "nat \<Rightarrow> 'a list \<Rightarrow> py_error + ('a \<times> 'a list)" where
  "pop i xs = (if i < length xs then Inr (xs ! i, take i xs @ drop (Suc i) xs) else Inl IndexError)"

text \<open>The test of the second loop: \<^verbatim>\<open>'(' in keys[i] and ')' not in keys[i]\<close>.\<close>

definition unclosed :: "string \<Rightarrow> bool" where
  "unclosed k = (CHR ''('' \<in> set k \<and> CHR '')'' \<notin> set k)"

text \<open>
  The second loop: \<^verbatim>\<open>while i < len(keys)\<close>; an unclosed \<^verbatim>\<open>keys[i]\<close> is replaced by
  \<^verbatim>\<open>'%s,%s' % (keys[i], keys.pop(i+1))\<close> and looked at again, any other one is passed.
\<close>

function rejoin :: "nat \<Rightarrow> string list \<Rightarrow> py_error + string list" where
  "rejoin i keys =
     (if i < length keys then
        (if unclosed (keys ! i) then
           (case pop (i + 1) keys of
              Inl e \<Rightarrow> Inl e
            | Inr (nxt, keys') \<Rightarrow> rejoin i (keys'[i := keys ! i @ '','' @ nxt]))
         else rejoin (i + 1) keys)
      else Inr keys)"
  by pat_completeness auto
termination
  by (relation "measure (\<lambda>(i, keys). 2 * length keys - i)") (auto simp: pop_def split: if_splits)

declare rejoin.simps [simp del]

text \<open>The fragments that reach \<^verbatim>\<open>keys\<close> in the first loop, and the list after the second.\<close>

definition key_fragments :: "string \<Rightarrow> py_error + string list" where
  "key_fragments schema = map_sum id snd (scan_rows False [] [] (py_split CHR '','' schema))"

definition key_constraints :: "string \<Rightarrow> py_error + string list" where
  "key_constraints schema =
     (case key_fragments schema of Inl e \<Rightarrow> Inl e | Inr keys \<Rightarrow> rejoin 0 keys)"

text \<open>The statement that \<^verbatim>\<open>create_table\<close> builds, or the exception raised on the way.\<close>

definition create_table_query :: "string \<Rightarrow> string \<Rightarrow> py_error + string" where
  "create_table_query table_name schema =
     (case scan_rows False [] [] (py_split CHR '','' schema) of
        Inl e \<Rightarrow> Inl e
      | Inr (rows, keys0) \<Rightarrow>
          (case rejoin 0 keys0 of
             Inl e \<Rightarrow> Inl e
           | Inr keys \<Rightarrow>
               Inr ((''create table if not exists '' @ table_name) @ ''('' @ [NL] @
                    py_join ('','' @ [NL]) rows @ (if length keys > 0 then '','' else []) @
                    [NL] @ py_join ('','' @ [NL]) keys @ '')'')))"

text \<open>
  \<^verbatim>\<open>create_table\<close>: build the statement, \<^verbatim>\<open>cur.execute(query)\<close>, then \<^verbatim>\<open>self.commit()\<close>.
  The outer \<open>option\<close> is that of \<open>commit\<close>.
\<close>

definition create_table ::
  "'s engine \<Rightarrow> (nat \<Rightarrow> commit_outcome) \<Rightarrow> string \<Rightarrow> string \<Rightarrow> 's db \<Rightarrow> (py_error + 's db) option"
where
  "create_table eng env table_name schema st =
     (case create_table_query table_name schema of
        Inl e \<Rightarrow> Some (Inl e)
      | Inr query \<Rightarrow>
          (case eng query [] (store st) of
             Inl e \<Rightarrow> Some (Inl e)
           | Inr (cur, s') \<Rightarrow> map_option Inr (commit env (st\<lparr>store := s'\<rparr>))))"

section \<open>Index creation: create\_index\<close>

definition create_index_query :: "string \<Rightarrow> string \<Rightarrow> string option \<Rightarrow> string" where
  "create_index_query index key name =
     (let name' = (case name of
                     None \<Rightarrow> index @ ''_'' @ replace_char CHR '','' ''_'' key
                   | Some n \<Rightarrow> n)
      in [NL, TAB, TAB, TAB] @ ''create index '' @
         [NL, TAB, TAB, TAB, TAB] @ ''if not exists '' @
         [NL, TAB, TAB, TAB, TAB] @ name' @ '' on '' @ index @ ''('' @ key @ '')'' @
         [NL, TAB, TAB])"

definition create_index ::
  "'s engine \<Rightarrow> (nat \<Rightarrow> commit_outcome) \<Rightarrow> string \<Rightarrow> string \<Rightarrow> string option \<Rightarrow> 's db
     \<Rightarrow> (py_error + 's db) option"
where
  "create_index eng env index key name st =
     (case eng (create_index_query index key name) [] (store st) of
        Inl e \<Rightarrow> Some (Inl e)
      | Inr (cur, s') \<Rightarrow> map_option Inr (commit env (st\<lparr>store := s'\<rparr>)))"

section \<open>The declared schema and indices, and the constructor\<close>

text \<open>
  A dictionary display \<^verbatim>\<open>{k1: v1, k2: v2, ...}\<close> stores its entries from left to right;
  storing under a key that is already there replaces the value. The dictionary is kept
  as an association list with one entry per key, in the order of first insertion (the
  order in which Python 2 iterates over a dictionary is not fixed by the language).
\<close>

definition dict_literal :: "('k \<times> 'v) list \<Rightarrow> ('k \<times> 'v) list" where
  "dict_literal entries = foldl (\<lambda>d (k, v). AList.update k v d) [] entries"

definition SCHEMA_items :: "(string \<times> string) list" where
  "SCHEMA_items =
    [(''albums'',
        ''name       text primary key,'' @
        ''url        text,'' @
        ''host       text,'' @
        ''ready      integer,'' @
        ''pending    integer,'' @
        ''filesize   integer,'' @
        ''path       text,'' @
        ''created    integer,'' @
        ''modified   integer,'' @
        ''accessed   integer,'' @
        ''count      integer,'' @
        ''zip        text,'' @
        ''views      integer,'' @
        ''metadata   text''),
     (''medias'',
        ''albumid    integer,'' @
        ''i_index    integer,'' @
        ''url        text,'' @
        ''downloaded integer,'' @
        ''saveas     text,'' @
        ''type       text,'' @
        ''path       text,'' @
        ''width      integer,'' @
        ''height     integer,'' @
        ''filesize   integer,'' @
        ''thumb      text,'' @
        ''t_width    integer,'' @
        ''t_height   integer,'' @
        ''metadata   text,'' @
        ''foreign key(albumid) references albums(rowid),'' @
        ''primary key(albumid, i_index)''),
     (''urls'',
        ''albumid  integer,'' @
        ''i_index  integer,'' @
        ''url      text,'' @
        ''saveas   text,'' @
        ''type     text,'' @
        ''metadata text,'' @
        ''added    integer''),
     (''metadata'',
        ''albumid integer,'' @
        ''key     text,'' @
        ''value   text,'' @
        ''foreign key(albumid) references albums(rowid),'' @
        ''primary key(albumid, key)''),
     (''sites'',
        ''host      text primary key,'' @
        ''available integer,'' @
        ''message   text''),
     (''config'',
        ''key   text primary key,'' @
        ''value text'')]"

definition SCHEMA :: "(string \<times> string) list" where
  "SCHEMA = dict_literal SCHEMA_items"

definition INDICES_items :: "(string \<times> string) list" where
  "INDICES_items =
    [(''albums'', ''ready''),
     (''albums'', ''host''),
     (''albums'', ''created''),
     (''albums'', ''accessed''),
     (''albums'', ''views''),
     (''medias'', ''albumid''),
     (''medias'', ''status''),
     (''medias'', ''path''),
     (''medias'', ''url''),
     (''config'', ''key'')]"

definition INDICES :: "(string \<times> string) list" where
  "INDICES = dict_literal INDICES_items"

text \<open>The two loops of \<^verbatim>\<open>__init__\<close>; an exception ends the loop.\<close>

fun create_tables ::
  "'s engine \<Rightarrow> (nat \<Rightarrow> commit_outcome) \<Rightarrow> (string \<times> string) list \<Rightarrow> 's db
     \<Rightarrow> (py_error + 's db) option"
where
  "create_tables eng env [] st = Some (Inr st)"
| "create_tables eng env ((table, schema) # rest) st =
     (case create_table eng env table schema st of
        None \<Rightarrow> None
      | Some (Inl e) \<Rightarrow> Some (Inl e)
      | Some (Inr st') \<Rightarrow> create_tables eng env rest st')"

fun create_indices ::
  "'s engine \<Rightarrow> (nat \<Rightarrow> commit_outcome) \<Rightarrow> (string \<times> string) list \<Rightarrow> 's db
     \<Rightarrow> (py_error + 's db) option"
where
  "create_indices eng env [] st = Some (Inr st)"
| "create_indices eng env ((index, key) # rest) st =
     (case create_index eng env index key None st of
        None \<Rightarrow> None
      | Some (Inl e) \<Rightarrow> Some (Inl e)
      | Some (Inr st') \<Rightarrow> create_indices eng env rest st')"

text \<open>
  \<^verbatim>\<open>DB.__init__\<close>. \<open>db_file\<close> is \<^verbatim>\<open>DB_FILE\<close>, \<open>file_exists\<close> is \<^verbatim>\<open>path.exists(DB_FILE)\<close>
  and \<open>s0\<close> is the store that \<^verbatim>\<open>sqlite3.connect\<close> opens or creates.
\<close>

definition DB_init ::
  "'s engine \<Rightarrow> (nat \<Rightarrow> commit_outcome) \<Rightarrow> string \<Rightarrow> bool \<Rightarrow> 's \<Rightarrow> (py_error + 's db) option"
where
  "DB_init eng env db_file file_exists s0 =
     (let st = debug (if file_exists
                      then ''__init__: connecting to database file: '' @ db_file
                      else ''__init__: database file ('' @ db_file @ '') not found, creating...'')
                     (fresh s0)
      in case create_tables eng env SCHEMA st of
           None \<Rightarrow> None
         | Some (Inl e) \<Rightarrow> Some (Inl e)
         | Some (Inr st1) \<Rightarrow>
             (case create_indices eng env INDICES st1 of
                None \<Rightarrow> None
              | Some (Inl e) \<Rightarrow> Some (Inl e)
              | Some (Inr st2) \<Rightarrow> map_option Inr (commit env st2)))"

section \<open>Generic queries\<close>

abbreviation DQ :: char where "DQ \<equiv> CHR 0x22"

text \<open>\<^verbatim>\<open>DB.insert\<close>: as many question marks as values, then \<^verbatim>\<open>cur.execute(query, values)\<close>;
  the result is \<^verbatim>\<open>cur.lastrowid\<close>. No commit.\<close>

definition insert_query :: "string \<Rightarrow> sql_value list \<Rightarrow> string" where
  "insert_query table vals =
     (let questions = py_join '','' (replicate (length vals) ''?'')
      in [NL, TAB, TAB, TAB] @ ''insert into '' @
         [NL, TAB, TAB, TAB, TAB] @ table @ '' '' @
         [NL, TAB, TAB, TAB, TAB] @ ''values ('' @ questions @ '')'' @
         [NL, TAB, TAB])"

definition insert_db ::
  "'s engine \<Rightarrow> string \<Rightarrow> sql_value list \<Rightarrow> 's db \<Rightarrow> py_error + (int option \<times> 's db)"
where
  "insert_db eng table vals st =
     (case eng (insert_query table vals) vals (store st) of
        Inl e \<Rightarrow> Inl e
      | Inr (cur, s') \<Rightarrow> Inr (lastrowid cur, st\<lparr>store := s'\<rparr>))"

text \<open>\<^verbatim>\<open>DB.select\<close>: the \<^verbatim>\<open>WHERE\<close> part is added when \<^verbatim>\<open>where != ''\<close>; the result is the
  cursor.\<close>

definition select_query :: "string \<Rightarrow> string \<Rightarrow> string \<Rightarrow> string" where
  "select_query what table wher =
     ([NL, TAB, TAB, TAB] @ ''select'' @
      [NL, TAB, TAB, TAB, TAB] @ what @
      [NL, TAB, TAB, TAB, TAB] @ ''FROM'' @
      [NL, TAB, TAB, TAB, TAB] @ table @
      [NL, TAB, TAB]) @
     (if wher \<noteq> [] then [NL, TAB, TAB, TAB, TAB] @ ''WHERE '' @ wher @ [NL, TAB, TAB, TAB] else [])"

definition select_db ::
  "'s engine \<Rightarrow> string \<Rightarrow> string \<Rightarrow> string \<Rightarrow> sql_value list \<Rightarrow> 's db
     \<Rightarrow> py_error + (cursor \<times> 's db)"
where
  "select_db eng what table wher vals st =
     (case eng (select_query what table wher) vals (store st) of
        Inl e \<Rightarrow> Inl e
      | Inr (cur, s') \<Rightarrow> Inr (cur, st\<lparr>store := s'\<rparr>))"

text \<open>\<^verbatim>\<open>cursor.fetchone()\<close>: the next row, or \<^verbatim>\<open>None\<close> when there is none.\<close>

definition fetchone :: "cursor \<Rightarrow> sql_value list option" where
  "fetchone cur = (case result_rows cur of [] \<Rightarrow> None | r # rs \<Rightarrow> Some r)"

text \<open>\<^verbatim>\<open>DB.select_one\<close>: \<^verbatim>\<open>raise Exception('no rows returned')\<close> when \<^verbatim>\<open>fetchone()\<close> is
  \<^verbatim>\<open>None\<close>, else \<^verbatim>\<open>ex[0]\<close>.\<close>

definition select_one ::
  "'s engine \<Rightarrow> string \<Rightarrow> string \<Rightarrow> string \<Rightarrow> sql_value list \<Rightarrow> 's db
     \<Rightarrow> py_error + (sql_value \<times> 's db)"
where
  "select_one eng what table wher vals st =
     (case select_db eng what table wher vals st of
        Inl e \<Rightarrow> Inl e
      | Inr (cur, st') \<Rightarrow>
          (case fetchone cur of
             None \<Rightarrow> Inl (Exception ''no rows returned'')
           | Some ex \<Rightarrow>
               (case ex of
                  [] \<Rightarrow> Inl IndexError
                | c # cs \<Rightarrow> Inr (c, st'))))"

section \<open>The config table\<close>

text \<open>\<^verbatim>\<open>DB.get_config\<close>: the key is put into the statement's text by \<^verbatim>\<open>%\<close>, between two
  double quotes, and the statement is executed without values. The result is \<^verbatim>\<open>None\<close>
  (here \<open>Null\<close>) when \<^verbatim>\<open>fetchone()\<close> is \<^verbatim>\<open>None\<close>, else \<^verbatim>\<open>result[0]\<close>.\<close>

definition get_config_query :: "string \<Rightarrow> string" where
  "get_config_query key =
     [NL, TAB, TAB, TAB] @ ''select value'' @
     [NL, TAB, TAB, TAB, TAB] @ ''from config'' @
     [NL, TAB, TAB, TAB, TAB] @ ''where key = '' @ [DQ] @ key @ [DQ] @
     [NL, TAB, TAB]"

definition get_config :: "'s engine \<Rightarrow> string \<Rightarrow> 's db \<Rightarrow> py_error + (sql_value \<times> 's db)" where
  "get_config eng key st =
     (case eng (get_config_query key) [] (store st) of
        Inl e \<Rightarrow> Inl e
      | Inr (execur, s') \<Rightarrow>
          (case fetchone execur of
             None \<Rightarrow> Inr (Null, st\<lparr>store := s'\<rparr>)
           | Some result \<Rightarrow>
               (case result of
                  [] \<Rightarrow> Inl IndexError
                | c # cs \<Rightarrow> Inr (c, st\<lparr>store := s'\<rparr>))))"

text \<open>\<^verbatim>\<open>DB.set_config\<close>: a fixed text with two question marks, executed with
  \<^verbatim>\<open>[key, value]\<close>, then \<^verbatim>\<open>self.commit()\<close>.\<close>

definition set_config_query :: string where
  "set_config_query =
     [NL, TAB, TAB, TAB] @ ''insert or replace into'' @
     [NL, TAB, TAB, TAB, TAB] @ ''config (key, value)'' @
     [NL, TAB, TAB, TAB, TAB] @ ''values (?, ?)'' @
     [NL, TAB, TAB]"

definition set_config_statement :: "string \<Rightarrow> sql_value \<Rightarrow> string \<times> sql_value list" where
  "set_config_statement key val = (set_config_query, [Text key, val])"

definition set_config ::
  "'s engine \<Rightarrow> (nat \<Rightarrow> commit_outcome) \<Rightarrow> string \<Rightarrow> sql_value \<Rightarrow> 's db \<Rightarrow> (py_error + 's db) option"
where
  "set_config eng env key val st =
     (case eng (fst (set_config_statement key val)) (snd (set_config_statement key val)) (store st) of
        Inl e \<Rightarrow> Some (Inl e)
      | Inr (execur, s') \<Rightarrow> map_option Inr (commit env (st\<lparr>store := s'\<rparr>)))"

section \<open>A model of the engine on the statements of these queries\<close>

text \<open>
  The statements above only have an effect through the engine. For the claims that speak
  of stored rows, this is a model of what sqlite3 does with the statements of
  \<^verbatim>\<open>insert\<close>, \<^verbatim>\<open>set_config\<close>, \<^verbatim>\<open>get_config\<close> and with a \<^verbatim>\<open>select\<close> of the same form. The
  text is cut into tokens: words, which SQL reads without regard to case, punctuation,
  and double-quoted tokens in which a doubled quote stands for one quote. The tokens are
  read as \<^verbatim>\<open>insert [or replace] into t [(columns)] values (?, ...)\<close> or as
  \<^verbatim>\<open>select p from t where k = "..."\<close>, where \<open>p\<close> is a column, \<^verbatim>\<open>max(column)\<close> or
  \<^verbatim>\<open>count(*)\<close>. The statement is run on tables whose columns are all declared \<^verbatim>\<open>text\<close>,
  as those of \<^verbatim>\<open>config\<close> are.

  The model covers no more than this. For a text that it does not cover (another form
  of statement, a character outside double quotes that is none of \<^verbatim>\<open>( ) , ? = *\<close>, a
  reference to the implicit row identifier) it answers \<open>Outside_model\<close>, which stands for
  no behaviour of sqlite3; the texts inside its other errors are labels, the class is
  what sqlite3 raises.
\<close>

datatype token = Word string | Sym char | Quoted string | Unterminated

definition ident_char :: "char \<Rightarrow> bool" where
  "ident_char c =
     (c \<in> set ''abcdefghijklmnopqrstuvwxyzABCDEFGHIJKLMNOPQRSTUVWXYZ0123456789_'')"

definition word :: "string \<Rightarrow> token list" where
  "word w = (if w = [] then [] else [Word (py_lower w)])"

fun sql_lex :: "string \<Rightarrow> string \<Rightarrow> token list"
  and sql_lex_quoted :: "string \<Rightarrow> string \<Rightarrow> token list"
where
  "sql_lex w [] = word w"
| "sql_lex w (c # cs) =
     (if ident_char c then sql_lex (w @ [c]) cs
      else if c = DQ then word w @ sql_lex_quoted [] cs
      else if is_space c then word w @ sql_lex [] cs
      else word w @ Sym c # sql_lex [] cs)"
| "sql_lex_quoted q [] = [Unterminated]"
| "sql_lex_quoted q (c # cs) =
     (if c = DQ then
        (case cs of
           [] \<Rightarrow> [Quoted q]
         | d # ds \<Rightarrow> if d = DQ then sql_lex_quoted (q @ [DQ]) ds else Quoted q # sql_lex [] cs)
      else sql_lex_quoted (q @ [c]) cs)"

definition sql_tokens :: "string \<Rightarrow> token list" where
  "sql_tokens query = sql_lex [] query"

text \<open>The punctuation that the model reads.\<close>

fun covered :: "token \<Rightarrow> bool" where
  "covered (Sym c) = (c \<in> set ''(),?=*'')"
| "covered t = True"

datatype projection = Column string | Max_of string | Count_rows

datatype statement =
    Insert_stmt bool string "string list option" nat
  | Select_stmt projection string string string

text \<open>\<^verbatim>\<open>?, ..., ?)\<close> at the end of the statement: the number of question marks.\<close>

fun placeholders :: "token list \<Rightarrow> nat option" where
  "placeholders (Sym a # Sym b # ts) =
     (if a \<noteq> CHR ''?'' then None
      else if b = CHR '')'' \<and> ts = [] then Some 1
      else if b = CHR '','' then map_option Suc (placeholders ts)
      else None)"
| "placeholders ts = None"

text \<open>\<^verbatim>\<open>c1, ..., cn)\<close>: the names, and the tokens after the parenthesis.\<close>

fun column_list :: "token list \<Rightarrow> (string list \<times> token list) option" where
  "column_list (Word c # Sym a # ts) =
     (if a = CHR '')'' then Some ([c], ts)
      else if a = CHR '','' then map_option (\<lambda>(cs, rest). (c # cs, rest)) (column_list ts)
      else None)"
| "column_list ts = None"

definition parse_values :: "token list \<Rightarrow> nat option" where
  "parse_values ts =
     (case ts of
        Word v # Sym l # rest \<Rightarrow>
          if v = ''values'' \<and> l = CHR ''('' then placeholders rest else None
      | _ \<Rightarrow> None)"

definition parse_insert :: "bool \<Rightarrow> token list \<Rightarrow> statement option" where
  "parse_insert repl ts =
     (case ts of
        Word t # Sym l # rest \<Rightarrow>
          (if l = CHR ''('' then
             (case column_list rest of
                None \<Rightarrow> None
              | Some (cs, rest') \<Rightarrow> map_option (Insert_stmt repl t (Some cs)) (parse_values rest'))
           else None)
      | Word t # rest \<Rightarrow> map_option (Insert_stmt repl t None) (parse_values rest)
      | _ \<Rightarrow> None)"

text \<open>\<^verbatim>\<open>from t where k = "..."\<close>: the table, the column and the quoted token.\<close>

definition parse_condition :: "token list \<Rightarrow> (string \<times> string \<times> string) option" where
  "parse_condition ts =
     (case ts of
        [Word f, Word t, Word w, Word k, Sym e, Quoted lit] \<Rightarrow>
          if f = ''from'' \<and> w = ''where'' \<and> e = CHR ''='' then Some (t, k, lit) else None
      | _ \<Rightarrow> None)"

definition parse_select :: "token list \<Rightarrow> statement option" where
  "parse_select ts =
     (case ts of
        Word g # Sym l # Word c # Sym r # rest \<Rightarrow>
          if g = ''max'' \<and> l = CHR ''('' \<and> r = CHR '')''
          then map_option (\<lambda>(t, k, lit). Select_stmt (Max_of c) t k lit) (parse_condition rest)
          else None
      | Word g # Sym l # Sym s # Sym r # rest \<Rightarrow>
          if g = ''count'' \<and> l = CHR ''('' \<and> s = CHR ''*'' \<and> r = CHR '')''
          then map_option (\<lambda>(t, k, lit). Select_stmt Count_rows t k lit) (parse_condition rest)
          else None
      | Word c # rest \<Rightarrow>
          map_option (\<lambda>(t, k, lit). Select_stmt (Column c) t k lit) (parse_condition rest)
      | _ \<Rightarrow> None)"

definition parse :: "token list \<Rightarrow> statement option" where
  "parse ts =
     (case ts of
        Word a # rest \<Rightarrow>
          if a = ''select'' then parse_select rest
          else if a = ''insert'' then
            (case rest of
               Word b # Word c # Word d # rest' \<Rightarrow>
                 if b = ''or'' \<and> c = ''replace'' \<and> d = ''into'' then parse_insert True rest'
                 else if b = ''into'' then parse_insert False (Word c # Word d # rest')
                 else None
             | Word b # rest' \<Rightarrow> if b = ''into'' then parse_insert False rest' else None
             | _ \<Rightarrow> None)
          else None
      | _ \<Rightarrow> None)"

text \<open>A table: its columns in declared order, the columns of its primary key, its rows,
  and the row identifier that the next inserted row gets. Names are in lower case.\<close>

record table =
  columns :: "string list"
  key_columns :: "string list"
  table_rows :: "sql_value list list"
  next_rowid :: int

type_synonym sqlite_store = "(string \<times> table) list"

definition field :: "table \<Rightarrow> string \<Rightarrow> sql_value list \<Rightarrow> sql_value" where
  "field tb c row = (case map_of (zip (columns tb) row) c of None \<Rightarrow> Null | Some v \<Rightarrow> v)"

text \<open>Two rows collide when the table has a primary key and they agree on it.\<close>

definition same_key :: "table \<Rightarrow> sql_value list \<Rightarrow> sql_value list \<Rightarrow> bool" where
  "same_key tb row row' =
     (key_columns tb \<noteq> [] \<and>
      list_all (\<lambda>c. field tb c row \<noteq> Null \<and> field tb c row = field tb c row') (key_columns tb))"

text \<open>
  What a bound value becomes in a column declared \<^verbatim>\<open>text\<close>: an integer is stored as its
  decimal text, a text and a null as they are. An integer outside the 64-bit range
  cannot be bound at all: sqlite3 raises \<^verbatim>\<open>OverflowError\<close>.
\<close>

function nat_digits :: "nat \<Rightarrow> string" where
  "nat_digits n =
     (if n < 10 then [''0123456789'' ! n]
      else nat_digits (n div 10) @ [''0123456789'' ! (n mod 10)])"
  by pat_completeness auto
termination
  by (relation "measure id") auto

declare nat_digits.simps [simp del]

definition decimal :: "int \<Rightarrow> string" where
  "decimal i = (if i < 0 then ''-'' @ nat_digits (nat (- i)) else nat_digits (nat i))"

definition stored :: "sql_value \<Rightarrow> sql_value" where
  "stored v = (case v of Integer i \<Rightarrow> Text (decimal i) | _ \<Rightarrow> v)"

definition in_int64 :: "sql_value \<Rightarrow> bool" where
  "in_int64 v = (case v of Integer i \<Rightarrow> - (2 ^ 63) \<le> i \<and> i < 2 ^ 63 | _ \<Rightarrow> True)"

text \<open>The names under which every table has its row identifier, unless it declares a
  column of that name.\<close>

definition rowid_name :: "table \<Rightarrow> string \<Rightarrow> bool" where
  "rowid_name tb c = (c \<in> set [''rowid'', ''oid'', ''_rowid_''] \<and> c \<notin> set (columns tb))"

text \<open>
  An insert. Without a column list the values go to all columns of the table, in
  declared order, and there must be as many; with a column list they go to the listed
  columns and the others are null. \<^verbatim>\<open>or replace\<close> removes the rows with the same key;
  without it such a row is an error.
\<close>

definition run_insert ::
  "bool \<Rightarrow> string \<Rightarrow> string list option \<Rightarrow> nat \<Rightarrow> sql_value list \<Rightarrow> sqlite_store
     \<Rightarrow> py_error + (cursor \<times> sqlite_store)"
where
  "run_insert repl t cols n vals s =
     (case map_of s t of
        None \<Rightarrow> Inl (OperationalError ''no such table'')
      | Some tb \<Rightarrow>
          (let target = (case cols of None \<Rightarrow> columns tb | Some cs \<Rightarrow> cs) in
           if list_ex (rowid_name tb) target
           then Inl Outside_model
           else if \<not> list_all (\<lambda>c. c \<in> set (columns tb)) target \<or> \<not> distinct target
           then Inl (OperationalError ''no such column'')
           else if n \<noteq> length target
           then Inl (OperationalError ''number of values differs from number of columns'')
           else if length vals \<noteq> n
           then Inl (ProgrammingError ''Incorrect number of bindings supplied'')
           else if \<not> list_all in_int64 vals
           then Inl (OverflowError ''Python int too large to convert to SQLite INTEGER'')
           else
             (let row = (case cols of
                           None \<Rightarrow> map stored vals
                         | Some cs \<Rightarrow>
                             map (\<lambda>c. case map_of (zip cs (map stored vals)) c of
                                        None \<Rightarrow> Null
                                      | Some v \<Rightarrow> v)
                               (columns tb));
                  others = filter (\<lambda>r. \<not> same_key tb row r) (table_rows tb)
              in if \<not> repl \<and> length others \<noteq> length (table_rows tb)
                 then Inl (IntegrityError ''UNIQUE constraint failed'')
                 else Inr (\<lparr>result_rows = [], lastrowid = Some (next_rowid tb)\<rparr>,
                           AList.update t
                             (tb\<lparr>table_rows := others @ [row], next_rowid := next_rowid tb + 1\<rparr>) s))))"

text \<open>
  The order of stored values: null first, then texts, byte by byte. \<^verbatim>\<open>max\<close> passes over
  nulls, and is null when nothing else is there.
\<close>

fun text_less :: "string \<Rightarrow> string \<Rightarrow> bool" where
  "text_less [] [] = False"
| "text_less [] (y # ys) = True"
| "text_less (x # xs) [] = False"
| "text_less (x # xs) (y # ys) = ((of_char x :: nat) < of_char y \<or> (x = y \<and> text_less xs ys))"

fun value_less :: "sql_value \<Rightarrow> sql_value \<Rightarrow> bool" where
  "value_less Null v = (v \<noteq> Null)"
| "value_less (Integer i) (Integer j) = (i < j)"
| "value_less (Integer i) (Text b) = True"
| "value_less (Text a) (Text b) = text_less a b"
| "value_less u v = False"

definition max_value :: "sql_value list \<Rightarrow> sql_value" where
  "max_value vs = foldl (\<lambda>m v. if value_less m v then v else m) Null vs"

text \<open>
  A select with the condition \<^verbatim>\<open>k = "..."\<close>. sqlite3 reads a double-quoted token as
  the name of a column when the table has a column of that name, and as a text
  otherwise. A plain column gives one row for each matching row; \<^verbatim>\<open>max\<close> and \<^verbatim>\<open>count\<close>
  give one row whatever the number of matching rows.
\<close>

definition run_select ::
  "projection \<Rightarrow> string \<Rightarrow> string \<Rightarrow> string \<Rightarrow> sql_value list \<Rightarrow> sqlite_store
     \<Rightarrow> py_error + (cursor \<times> sqlite_store)"
where
  "run_select p t k lit vals s =
     (case map_of s t of
        None \<Rightarrow> Inl (OperationalError ''no such table'')
      | Some tb \<Rightarrow>
          (let named = (case p of Column c \<Rightarrow> [c, k] | Max_of c \<Rightarrow> [c, k] | Count_rows \<Rightarrow> [k]) in
           if list_ex (rowid_name tb) (py_lower lit # named)
           then Inl Outside_model
           else if \<not> list_all (\<lambda>c. c \<in> set (columns tb)) named
           then Inl (OperationalError ''no such column'')
           else if vals \<noteq> []
           then Inl (ProgrammingError ''Incorrect number of bindings supplied'')
           else
             (let matches =
                    (\<lambda>r. if py_lower lit \<in> set (columns tb)
                         then field tb k r \<noteq> Null \<and> field tb k r = field tb (py_lower lit) r
                         else field tb k r = Text lit);
                  found = filter matches (table_rows tb);
                  result = (case p of
                              Column c \<Rightarrow> map (\<lambda>r. [field tb c r]) found
                            | Max_of c \<Rightarrow> [[max_value (map (field tb c) found)]]
                            | Count_rows \<Rightarrow> [[Integer (int (length found))]])
              in Inr (\<lparr>result_rows = result, lastrowid = None\<rparr>, s))))"

definition sqlite_model :: "sqlite_store engine" where
  "sqlite_model query vals s =
     (let ts = sql_tokens query in
      if \<not> list_all covered ts then Inl Outside_model
      else if Unterminated \<in> set ts then Inl (OperationalError ''unrecognized token'')
      else
        (case parse ts of
           None \<Rightarrow> Inl Outside_model
         | Some (Insert_stmt repl t cols n) \<Rightarrow> run_insert repl t cols n vals s
         | Some (Select_stmt p t k lit) \<Rightarrow> run_select p t k lit vals s))"

text \<open>A store with the table \<^verbatim>\<open>config\<close> as declared in \<^verbatim>\<open>SCHEMA\<close>, holding the given rows.\<close>

definition config_store :: "sql_value list list \<Rightarrow> sqlite_store" where
  "config_store rows =
     [(''config'', \<lparr>columns = [''key'', ''value''], key_columns = [''key''],
                   table_rows = rows, next_rowid = 1 + int (length rows)\<rparr>)]"

text \<open>The tokens of \<open>n\<close> question marks separated by commas.\<close>

fun question_tokens :: "nat \<Rightarrow> token list" where
  "question_tokens 0 = []"
| "question_tokens (Suc 0) = [Sym CHR ''?'']"
| "question_tokens (Suc (Suc n)) = Sym CHR ''?'' # Sym CHR '','' # question_tokens (Suc n)"

text \<open>A plain name: letters, digits and underscores, at least one.\<close>

definition is_name :: "string \<Rightarrow> bool" where
  "is_name t = (t \<noteq> [] \<and> list_all ident_char t)"

text \<open>The tokens of \<^verbatim>\<open>select value from config where key =\<close>, which the statement of
  \<^verbatim>\<open>get_config\<close> has before its quoted token.\<close>

definition config_select :: "token list" where
  "config_select =
     [Word ''select'', Word ''value'', Word ''from'', Word ''config'', Word ''where'',
      Word ''key'', Sym CHR ''='']"

text \<open>The statements, in order, that the constructor executes on a fresh store that
  accepts every statement and every commit.\<close>

definition init_statements :: "string list" where
  "init_statements =
     (case DB_init journal (always Commit_ok) ''database.db'' False [] of
        Some (Inr st) \<Rightarrow> map fst (store st)
      | _ \<Rightarrow> [])"

text \<open>The predicate \<^verbatim>\<open>k = "text"\<close> as a caller of \<^verbatim>\<open>select_one\<close> writes it.\<close>

definition equals_text :: "string \<Rightarrow> string \<Rightarrow> string" where
  "equals_text k lit = k @ '' = '' @ [DQ] @ lit @ [DQ]"

text \<open>The rows of a table in which column \<open>k\<close> holds the text \<open>lit\<close>.\<close>

definition matching :: "table \<Rightarrow> string \<Rightarrow> string \<Rightarrow> sql_value list list" where
  "matching tb k lit = filter (\<lambda>r. field tb (py_lower k) r = Text lit) (table_rows tb)"

text \<open>A table of the model's kind holds what text columns hold: texts and nulls.\<close>

definition text_table :: "table \<Rightarrow> bool" where
  "text_table tb = list_all (list_all (\<lambda>v. stored v = v)) (table_rows tb)"

text \<open>
  The queries \<^verbatim>\<open>... from table where k = "lit"\<close> that the model reads as the comparison
  of a column with a text: \<open>table\<close> and \<open>k\<close> are plain names of a table of the store and of
  one of its columns, and \<open>lit\<close> holds no double quote and names neither a column nor the
  row identifier.
\<close>

definition text_condition :: "sqlite_store db \<Rightarrow> string \<Rightarrow> table \<Rightarrow> string \<Rightarrow> string \<Rightarrow> bool" where
  "text_condition st table tb k lit =
     (is_name table \<and> is_name k \<and> DQ \<notin> set lit \<and>
      map_of (store st) (py_lower table) = Some tb \<and> text_table tb \<and>
      py_lower k \<in> set (columns tb) \<and>
      py_lower lit \<notin> set ([''rowid'', ''oid'', ''_rowid_''] @ columns tb))"

section \<open>Shapes of schema clauses\<close>

text \<open>
  The test of the first loop on one fragment: its first space-separated field, in lower
  case, is \<^verbatim>\<open>primary\<close> or \<^verbatim>\<open>foreign\<close>.
\<close>

definition introduces_key :: "string \<Rightarrow> bool" where
  "introduces_key row =
     (case py_split CHR '' '' row of
        [] \<Rightarrow> False
      | f # fs \<Rightarrow> py_lower f \<in> set [''primary'', ''foreign''])"

text \<open>
  A key clause shaped like \<^verbatim>\<open>foreign key(albumid) references albums(rowid)\<close> or
  \<^verbatim>\<open>primary key(albumid, i_index)\<close>: some words without comma or parenthesis, then one
  parenthesised list, the only place where commas stand, then a remainder without comma.
\<close>

definition key_clause :: "string \<Rightarrow> bool" where
  "key_clause c =
     (let p = takeWhile (\<lambda>x. x \<noteq> CHR ''('') c;
          r = dropWhile (\<lambda>x. x \<noteq> CHR ''('') c;
          body = takeWhile (\<lambda>x. x \<noteq> CHR '')'') (drop 1 r);
          q = dropWhile (\<lambda>x. x \<noteq> CHR '')'') (drop 1 r)
      in r \<noteq> [] \<and> q \<noteq> [] \<and> CHR '','' \<notin> set p \<and> CHR '')'' \<notin> set p \<and>
         CHR ''('' \<notin> set body \<and> CHR '','' \<notin> set q)"

section \<open>Properties of commit\<close>

lemma commit_ok_now:
  "env (commit_calls st) = Commit_ok \<Longrightarrow>
   commit env st = Some (st\<lparr>commit_calls := Suc (commit_calls st)\<rparr>)"
  by (subst commit.simps) simp

lemma commit_after_failures:
  "(\<forall>j<k. env (commit_calls st + j) \<noteq> Commit_ok) \<Longrightarrow>
   env (commit_calls st + k) = Commit_ok \<Longrightarrow>
   commit env st =
     Some (st\<lparr>commit_calls := commit_calls st + Suc k,
              log := log st @ replicate k ''failed to commit, retrying...'',
              slept_ms := slept_ms st + 100 * k\<rparr>)"
proof (induction k arbitrary: st)
  case 0
  then show ?case by (simp add: commit_ok_now)
next
  case (Suc k)
  let ?st' = "debug ''failed to commit, retrying...'' (st\<lparr>commit_calls := Suc (commit_calls st)\<rparr>)
                \<lparr>slept_ms := slept_ms st + 100\<rparr>"
  from Suc.prems(1) have "env (commit_calls st) \<noteq> Commit_ok"
    by (metis add.right_neutral zero_less_Suc)
  then obtain e where e: "env (commit_calls st) = Commit_raises e"
    by (cases "env (commit_calls st)") auto
  have step: "commit env st = commit env ?st'"
    by (subst commit.simps) (simp add: e)
  have later: "\<forall>j<k. env (commit_calls ?st' + j) \<noteq> Commit_ok"
    using Suc.prems(1) by (auto simp: debug_def)
  have ok: "env (commit_calls ?st' + k) = Commit_ok"
    using Suc.prems(2) by (simp add: debug_def)
  show ?case
    unfolding step Suc.IH [OF later ok]
    by (simp add: debug_def replicate_append_same)
qed

lemma commit_returns_only_after_success:
  assumes "commit env (st :: 'a db) = Some st'"
  shows "\<exists>j. env (commit_calls st + j) = Commit_ok"
proof (rule commit.raw_induct
    [where P = "\<lambda>env st y. \<exists>j. env (commit_calls st + j) = Commit_ok"
       and env = env and st = st and y = st'])
  fix f :: "(nat \<Rightarrow> commit_outcome) \<Rightarrow> 'a db \<Rightarrow> 'a db option"
  fix env :: "nat \<Rightarrow> commit_outcome" and st y :: "'a db"
  let ?st1 = "debug ''failed to commit, retrying...''
                (st\<lparr>commit_calls := Suc (commit_calls st)\<rparr>)\<lparr>slept_ms := slept_ms st + 100\<rparr>"
  assume IH: "\<And>env st y. f env st = Some y \<Longrightarrow> \<exists>j. env (commit_calls st + j) = Commit_ok"
    and body: "(case env (commit_calls st) of
                  Commit_ok \<Rightarrow> Some (st\<lparr>commit_calls := Suc (commit_calls st)\<rparr>)
                | Commit_raises e \<Rightarrow> f env ?st1) = Some y"
  show "\<exists>j. env (commit_calls st + j) = Commit_ok"
  proof (cases "env (commit_calls st)")
    case Commit_ok
    then have "env (commit_calls st + 0) = Commit_ok" by simp
    then show ?thesis by blast
  next
    case (Commit_raises e)
    with body have "f env ?st1 = Some y"
      by simp
    from IH [OF this] obtain j where "env (commit_calls ?st1 + j) = Commit_ok"
      by blast
    then have "env (commit_calls st + Suc j) = Commit_ok"
      by (simp add: debug_def)
    then show ?thesis by blast
  qed
next
  show "commit env st = Some st'" by fact
qed

lemma commit_never_returns:
  "(\<forall>j. env (commit_calls st + j) \<noteq> Commit_ok) \<Longrightarrow> commit env st = None"
  using commit_returns_only_after_success [of env st] by (cases "commit env st") auto

text \<open>
  Claim C1, as the code has it. \<^verbatim>\<open>commit()\<close> retries after every failure of the store's
  commit, whatever its class, each time after a wait of 100 ms and one line written by
  \<^verbatim>\<open>debug\<close>; there is no bound on the attempts and no failure reaches the caller. If
  the store's commit fails \<open>k\<close> times and then succeeds, \<^verbatim>\<open>commit()\<close> returns after
  \<open>k + 1\<close> calls and \<open>100 * k\<close> ms of waiting; if it never succeeds, \<^verbatim>\<open>commit()\<close> never
  returns.
\<close>

theorem commit_retries_every_failure:
  "((\<forall>j<k. env (commit_calls st + j) \<noteq> Commit_ok) \<and> env (commit_calls st + k) = Commit_ok \<longrightarrow>
      commit env st =
        Some (st\<lparr>commit_calls := commit_calls st + Suc k,
                 log := log st @ replicate k ''failed to commit, retrying...'',
                 slept_ms := slept_ms st + 100 * k\<rparr>)) \<and>
   ((\<forall>j. env (commit_calls st + j) \<noteq> Commit_ok) \<longrightarrow> commit env st = None)"
  using commit_after_failures [of k env st] commit_never_returns [of env st] by blast

text \<open>
  The theorem at a store whose commit fails once for a lock and once for a disk error
  before it succeeds, and at a store that stays locked for ever.
\<close>

theorem commit_retries_every_failure_witness:
  "commit (scripted [Commit_raises (OperationalError ''database is locked''),
                     Commit_raises (OperationalError ''disk I/O error'')]) (fresh ()) =
     Some \<lparr>store = (), commit_calls = 3, slept_ms = 200,
           log = [''failed to commit, retrying...'', ''failed to commit, retrying...'']\<rparr> \<and>
   commit (always (Commit_raises (OperationalError ''database is locked''))) (fresh ()) = None"
  using commit_retries_every_failure
          [of 2 "scripted [Commit_raises (OperationalError ''database is locked''),
                           Commit_raises (OperationalError ''disk I/O error'')]" "fresh ()"]
        commit_retries_every_failure
          [of 0 "always (Commit_raises (OperationalError ''database is locked''))" "fresh ()"]
  by (simp add: scripted_def always_def fresh_def numeral_2_eq_2 less_Suc_eq)

text \<open>
  Claim C1 as the specification words it fails: a failure that is no lock contention
  (here a disk error at the first call) is not handed to the caller. The call is
  repeated after 100 ms, and \<^verbatim>\<open>commit()\<close> returns normally.
\<close>

theorem commit_other_failure_counterexample:
  "commit (scripted [Commit_raises (OperationalError ''disk I/O error'')]) (fresh ()) =
     Some \<lparr>store = (), commit_calls = 2, slept_ms = 100,
           log = [''failed to commit, retrying...'']\<rparr>"
  by (simp add: commit.simps scripted_def fresh_def debug_def)

section \<open>Text primitives and the two loops of create\_table\<close>

lemma py_split_nonempty: "py_split sep s \<noteq> []"
  by (induction s) (auto split: list.splits)

lemma scan_rows_keys:
  "scan_rows True rows keys frs = Inr (rows, keys @ frs)"
proof (induction frs arbitrary: keys)
  case Nil
  then show ?case by simp
next
  case (Cons r frs)
  obtain f fs where "py_split CHR '' '' r = f # fs"
    using py_split_nonempty [of "CHR '' ''" r] by (cases "py_split CHR '' '' r") auto
  then show ?case by (simp add: Cons.IH)
qed

lemma scan_rows_total:
  "\<exists>rows' keys'. scan_rows hit rows keys frs = Inr (rows', keys')"
proof (induction frs arbitrary: hit rows keys)
  case Nil
  then show ?case by simp
next
  case (Cons r frs)
  obtain f fs where "py_split CHR '' '' r = f # fs"
    using py_split_nonempty [of "CHR '' ''" r] by (cases "py_split CHR '' '' r") auto
  then show ?case using Cons.IH by (simp add: Let_def)
qed

lemma merged_list:
  "Suc i < length keys \<Longrightarrow>
   (take (Suc i) keys @ drop (Suc (Suc i)) keys)[i := x] = take i keys @ x # drop (Suc (Suc i)) keys"
  by (simp add: list_update_append take_Suc_conv_app_nth)

lemma rejoin_merge:
  "Suc i < length keys \<Longrightarrow> unclosed (keys ! i) \<Longrightarrow>
   rejoin i keys = rejoin i (take i keys @ (keys ! i @ '','' @ keys ! Suc i) # drop (Suc (Suc i)) keys)"
  by (subst rejoin.simps) (simp add: pop_def merged_list)

lemma rejoin_pass:
  "i < length keys \<Longrightarrow> \<not> unclosed (keys ! i) \<Longrightarrow> rejoin i keys = rejoin (Suc i) keys"
  by (subst rejoin.simps) simp

lemma rejoin_raise:
  "i < length keys \<Longrightarrow> unclosed (keys ! i) \<Longrightarrow> \<not> Suc i < length keys \<Longrightarrow>
   rejoin i keys = Inl IndexError"
  by (subst rejoin.simps) (simp add: pop_def)

lemma rejoin_done: "\<not> i < length keys \<Longrightarrow> rejoin i keys = Inr keys"
  by (subst rejoin.simps) simp

lemma unclosed_append: "unclosed x \<Longrightarrow> CHR '')'' \<notin> set y \<Longrightarrow> unclosed (x @ '','' @ y)"
  by (auto simp: unclosed_def)

lemma rejoin_unclosed_last:
  "i < length keys \<Longrightarrow> unclosed (last keys) \<Longrightarrow> rejoin i keys = Inl IndexError"
proof (induction "2 * length keys - i" arbitrary: i keys rule: less_induct)
  case less
  show ?case
  proof (cases "unclosed (keys ! i)")
    case False
    with less.prems have "i \<noteq> length keys - 1"
      by (metis last_conv_nth length_0_conv not_less_zero)
    with less.prems have lt: "Suc i < length keys" by simp
    have "rejoin (Suc i) keys = Inl IndexError"
      by (rule less.hyps) (use lt less.prems in auto)
    then show ?thesis using less.prems False by (simp add: rejoin_pass)
  next
    case True
    show ?thesis
    proof (cases "Suc i < length keys")
      case False
      then show ?thesis using less.prems True by (simp add: rejoin_raise)
    next
      case lt: True
      let ?x = "keys ! i @ '','' @ keys ! Suc i"
      let ?keys' = "take i keys @ ?x # drop (Suc (Suc i)) keys"
      have u: "unclosed (last ?keys')"
      proof (cases "drop (Suc (Suc i)) keys = []")
        case True
        then have "Suc i = length keys - 1" using lt by simp
        then have "keys ! Suc i = last keys"
          using lt by (metis last_conv_nth length_0_conv not_less_zero)
        with less.prems(2) have "CHR '')'' \<notin> set (keys ! Suc i)" by (simp add: unclosed_def)
        with \<open>unclosed (keys ! i)\<close> have "unclosed ?x" by (rule unclosed_append)
        with True show ?thesis by simp
      next
        case False
        then have "last ?keys' = last (drop (Suc (Suc i)) keys)" by simp
        also have "\<dots> = last keys" using False by (simp add: last_drop)
        finally show ?thesis using less.prems(2) by simp
      qed
      have l: "i < length ?keys'" using lt by simp
      have m: "2 * length ?keys' - i < 2 * length keys - i" using lt by simp
      have "rejoin i ?keys' = Inl IndexError" by (rule less.hyps [OF m l u])
      then show ?thesis using lt True by (simp add: rejoin_merge)
    qed
  qed
qed


lemma rejoin_error: "rejoin i keys = Inl e \<Longrightarrow> e = IndexError"
proof (induction i keys rule: rejoin.induct)
  case (1 i keys)
  from "1.prems" show ?case
    apply (subst (asm) rejoin.simps)
    apply (auto simp: pop_def split: if_splits intro: "1.IH")
    done
qed

lemma create_table_query_error:
  assumes "create_table_query table_name schema = Inl e"
  shows "e = IndexError"
proof -
  obtain rows keys0 where s: "scan_rows False [] [] (py_split CHR '','' schema) = Inr (rows, keys0)"
    using scan_rows_total by blast
  with assms have "rejoin 0 keys0 = Inl e"
    by (auto simp: create_table_query_def split: sum.splits)
  then show ?thesis by (rule rejoin_error)
qed

lemma create_table_query_no_keys:
  assumes "key_fragments schema = Inr []"
  shows "\<exists>q. create_table_query table_name schema = Inr q"
proof -
  obtain rows keys0 where s: "scan_rows False [] [] (py_split CHR '','' schema) = Inr (rows, keys0)"
    using scan_rows_total by blast
  with assms have "keys0 = []" by (simp add: key_fragments_def)
  with s show ?thesis by (simp add: create_table_query_def rejoin_done)
qed

text \<open>
  Claim C9. When the last fragment of the key group holds an opening parenthesis and no
  closing one, \<^verbatim>\<open>create_table\<close> ends with the IndexError of \<^verbatim>\<open>keys.pop(i+1)\<close>, whatever
  the engine and the store: no statement is built or executed. So the rejoin loop runs
  to its end only if the key group is empty or its last fragment is not of that kind.
\<close>

theorem create_table_index_error:
  "(key_fragments schema = Inr keys \<and> keys \<noteq> [] \<and> unclosed (last keys) \<longrightarrow>
      create_table eng env table_name schema st = Some (Inl IndexError)) \<and>
   (key_fragments schema = Inr keys \<and> key_constraints schema = Inr ks \<longrightarrow>
      keys = [] \<or> \<not> unclosed (last keys))"
proof (intro conjI impI)
  assume a: "key_fragments schema = Inr keys \<and> keys \<noteq> [] \<and> unclosed (last keys)"
  then obtain rows where s: "scan_rows False [] [] (py_split CHR '','' schema) = Inr (rows, keys)"
    by (cases "scan_rows False [] [] (py_split CHR '','' schema)") (auto simp: key_fragments_def)
  from a have "rejoin 0 keys = Inl IndexError"
    by (intro rejoin_unclosed_last) auto
  with s show "create_table eng env table_name schema st = Some (Inl IndexError)"
    by (simp add: create_table_def create_table_query_def)
next
  assume a: "key_fragments schema = Inr keys \<and> key_constraints schema = Inr ks"
  then have r: "rejoin 0 keys = Inr ks" by (auto simp: key_constraints_def)
  show "keys = [] \<or> \<not> unclosed (last keys)"
  proof (rule ccontr)
    assume "\<not> (keys = [] \<or> \<not> unclosed (last keys))"
    then have "rejoin 0 keys = Inl IndexError"
      by (intro rejoin_unclosed_last) auto
    with r show False by simp
  qed
qed

text \<open>The theorem at a schema whose primary key lacks its closing parenthesis, and at
  the same schema with the parenthesis closed.\<close>

theorem create_table_index_error_witness:
  "create_table journal (always Commit_ok) ''t'' ''id integer,name text,primary key(id'' (fresh [])
     = Some (Inl IndexError) \<and>
   \<not> unclosed (last [''primary key(id)''])"
proof -
  have k1: "key_fragments ''id integer,name text,primary key(id'' = Inr [''primary key(id'']"
    by code_simp
  have u1: "unclosed (last [''primary key(id''])"
    by code_simp
  have k2: "key_fragments ''id integer,name text,primary key(id)'' = Inr [''primary key(id)'']"
    by code_simp
  have c2: "key_constraints ''id integer,name text,primary key(id)'' = Inr [''primary key(id)'']"
    by code_simp
  from create_table_index_error
         [of "''id integer,name text,primary key(id''" "[''primary key(id'']" journal
             "always Commit_ok" "''t''" "fresh []"]
       create_table_index_error
         [of "''id integer,name text,primary key(id)''" "[''primary key(id)'']" journal
             "always Commit_ok" "''t''" "fresh []" "[''primary key(id)'']"]
       k1 u1 k2 c2
  show ?thesis by simp
qed

lemma py_split_append:
  "py_split sep (x @ sep # rest) = py_split sep x @ py_split sep rest"
proof (induction x)
  case Nil
  then show ?case by simp
next
  case (Cons c x)
  obtain w ws where "py_split sep x = w # ws"
    using py_split_nonempty [of sep x] by (cases "py_split sep x") auto
  with Cons show ?case by simp
qed

lemma py_split_no_sep: "sep \<notin> set x \<Longrightarrow> py_split sep x = [x]"
  by (induction x) auto

lemma py_join_Cons: "ys \<noteq> [] \<Longrightarrow> py_join sep (x # ys) = x @ sep @ py_join sep ys"
  by (cases ys) auto

lemma py_join_Cons_Cons: "py_join sep ((c # w) # ws) = c # py_join sep (w # ws)"
  by (cases ws) auto

lemma py_join_split: "py_join [sep] (py_split sep s) = s"
proof (induction s)
  case Nil
  then show ?case by simp
next
  case (Cons c s)
  obtain w ws where w: "py_split sep s = w # ws"
    using py_split_nonempty [of sep s] by (cases "py_split sep s") auto
  with Cons show ?case by (simp add: py_join_Cons_Cons)
qed

lemma py_split_join:
  "ys \<noteq> [] \<Longrightarrow> py_split sep (py_join [sep] ys) = concat (map (py_split sep) ys)"
proof (induction ys)
  case Nil
  then show ?case by simp
next
  case (Cons y ys)
  show ?case
  proof (cases ys)
    case Nil
    then show ?thesis by simp
  next
    case (Cons z zs)
    with Cons.IH have "py_split sep (py_join [sep] ys) = concat (map (py_split sep) ys)" by simp
    then show ?thesis using Cons by (simp add: py_split_append)
  qed
qed

lemma py_join_merge: "py_join sep ((x @ sep @ m) # ys) = py_join sep (x # m # ys)"
  by (cases ys) auto

lemma rejoin_merge_at:
  assumes "unclosed x"
  shows "rejoin (length pre) (pre @ x # y # rest) = rejoin (length pre) (pre @ (x @ '','' @ y) # rest)"
proof -
  let ?keys = "pre @ x # y # rest"
  have "Suc (length pre) < length ?keys" by simp
  moreover have "unclosed (?keys ! length pre)" using assms by simp
  ultimately have "rejoin (length pre) ?keys =
      rejoin (length pre) (take (length pre) ?keys @
        (?keys ! length pre @ '','' @ ?keys ! Suc (length pre)) # drop (Suc (Suc (length pre))) ?keys)"
    by (rule rejoin_merge)
  then show ?thesis by (simp add: nth_append)
qed

lemma rejoin_pass_at:
  assumes "\<not> unclosed x"
  shows "rejoin (length pre) (pre @ x # rest) = rejoin (length (pre @ [x])) ((pre @ [x]) @ rest)"
  using rejoin_pass [of "length pre" "pre @ x # rest"] assms by simp

lemma rejoin_group:
  assumes "unclosed x" and "\<forall>m\<in>set ms. CHR '')'' \<notin> set m" and "CHR '')'' \<in> set z"
  shows "rejoin (length pre) (pre @ x # ms @ z # rest) =
         rejoin (Suc (length pre)) (pre @ py_join '','' (x # ms @ [z]) # rest)"
  using assms
proof (induction ms arbitrary: x)
  case Nil
  have "\<not> unclosed (x @ '','' @ z)" using Nil.prems(3) by (simp add: unclosed_def)
  then show ?case
    using rejoin_merge_at [OF Nil.prems(1), of pre z rest]
          rejoin_pass_at [of "x @ '','' @ z" pre rest]
    by simp
next
  case (Cons m ms)
  have u: "unclosed (x @ '','' @ m)"
    using Cons.prems(1,2) by (intro unclosed_append) auto
  have "rejoin (length pre) (pre @ x # (m # ms) @ z # rest) =
        rejoin (length pre) (pre @ (x @ '','' @ m) # ms @ z # rest)"
    using rejoin_merge_at [OF Cons.prems(1), of pre m "ms @ z # rest"] by simp
  also have "\<dots> = rejoin (Suc (length pre)) (pre @ py_join '','' ((x @ '','' @ m) # ms @ [z]) # rest)"
    using Cons.prems by (intro Cons.IH [OF u]) auto
  also have "py_join '','' ((x @ '','' @ m) # ms @ [z]) = py_join '','' (x # (m # ms) @ [z])"
    using py_join_merge [of "'',''" x m "ms @ [z]"] by simp
  finally show ?case .
qed

lemma py_split_suffix:
  "sep \<notin> set q \<Longrightarrow>
   py_split sep (s @ q) = butlast (py_split sep s) @ [last (py_split sep s) @ q]"
proof (induction s)
  case Nil
  then show ?case by (simp add: py_split_no_sep)
next
  case (Cons c s)
  obtain w ws where w: "py_split sep s = w # ws"
    using py_split_nonempty [of sep s] by (cases "py_split sep s") auto
  show ?case
  proof (cases "c = sep")
    case True
    then show ?thesis using Cons w by simp
  next
    case False
    then show ?thesis using Cons w by (cases ws) auto
  qed
qed

lemma py_split_prefix:
  "sep \<notin> set p \<Longrightarrow>
   py_split sep (p @ s) = (p @ hd (py_split sep s)) # tl (py_split sep s)"
proof (induction p)
  case Nil
  then show ?case using py_split_nonempty [of sep s] by simp
next
  case (Cons c p)
  then show ?case by auto
qed

lemma py_split_subset: "b \<in> set (py_split sep s) \<Longrightarrow> set b \<subseteq> set s"
proof (induction s arbitrary: b)
  case Nil
  then show ?case by simp
next
  case (Cons c s)
  obtain w ws where w: "py_split sep s = w # ws"
    using py_split_nonempty [of sep s] by (cases "py_split sep s") auto
  show ?case
  proof (cases "c = sep")
    case True
    with Cons.prems have "b = [] \<or> b \<in> set (py_split sep s)" by simp
    then show ?thesis using Cons.IH by auto
  next
    case False
    with Cons.prems w have "b = c # w \<or> b \<in> set ws" by simp
    then show ?thesis
    proof
      assume "b = c # w"
      moreover have "set w \<subseteq> set s" using Cons.IH [of w] w by simp
      ultimately show ?thesis by auto
    next
      assume "b \<in> set ws"
      then have "set b \<subseteq> set s" using Cons.IH [of b] w by simp
      then show ?thesis by auto
    qed
  qed
qed

lemma key_clause_shape:
  assumes "key_clause c"
  obtains p body q where "c = p @ CHR ''('' # body @ CHR '')'' # q"
    and "CHR '','' \<notin> set p" and "CHR '')'' \<notin> set p"
    and "CHR ''('' \<notin> set body" and "CHR '')'' \<notin> set body" and "CHR '','' \<notin> set q"
proof -
  define p where "p = takeWhile (\<lambda>x. x \<noteq> CHR ''('') c"
  define r where "r = dropWhile (\<lambda>x. x \<noteq> CHR ''('') c"
  define body where "body = takeWhile (\<lambda>x. x \<noteq> CHR '')'') (drop 1 r)"
  define q where "q = dropWhile (\<lambda>x. x \<noteq> CHR '')'') (drop 1 r)"
  from assms have k: "r \<noteq> []" "q \<noteq> []" "CHR '','' \<notin> set p" "CHR '')'' \<notin> set p"
      "CHR ''('' \<notin> set body" "CHR '','' \<notin> set q"
    by (simp_all add: key_clause_def Let_def p_def r_def body_def q_def)
  have c: "c = p @ r" by (simp add: p_def r_def)
  from k(1) have "hd r = CHR ''(''"
    using hd_dropWhile [of "\<lambda>x. x \<noteq> CHR ''(''" c] by (simp add: r_def)
  with k(1) have r: "r = CHR ''('' # drop 1 r" by (cases r) auto
  have d: "drop 1 r = body @ q" by (simp add: body_def q_def)
  from k(2) have "hd q = CHR '')''"
    using hd_dropWhile [of "\<lambda>x. x \<noteq> CHR '')''" "drop 1 r"] by (simp add: q_def)
  with k(2) have q: "q = CHR '')'' # tl q" by (cases q) auto
  have nb: "CHR '')'' \<notin> set body"
    unfolding body_def by (metis (mono_tags, lifting) set_takeWhileD)
  have "c = p @ CHR ''('' # body @ CHR '')'' # tl q"
    using c r d q by metis
  moreover have "CHR '','' \<notin> set (tl q)" using k(6) q by (metis list.set_intros(2))
  ultimately show ?thesis using that k nb by blast
qed

lemma key_clause_fragments:
  assumes "key_clause c"
  shows "(py_split CHR '','' c = [c] \<and> \<not> unclosed c) \<or>
         (\<exists>x ms z. py_split CHR '','' c = x # ms @ [z] \<and> unclosed x \<and>
                    (\<forall>m\<in>set ms. CHR '')'' \<notin> set m) \<and> CHR '')'' \<in> set z)"
proof -
  from assms obtain p body q where c: "c = p @ CHR ''('' # body @ CHR '')'' # q"
    and p: "CHR '','' \<notin> set p" "CHR '')'' \<notin> set p"
    and b: "CHR ''('' \<notin> set body" "CHR '')'' \<notin> set body" and q: "CHR '','' \<notin> set q"
    by (rule key_clause_shape)
  let ?P = "p @ ''(''" and ?Q = "CHR '')'' # q"
  let ?B = "py_split CHR '','' body"
  have P: "CHR '','' \<notin> set ?P" and Q: "CHR '','' \<notin> set ?Q" using p q by auto
  have c': "c = ?P @ (body @ ?Q)" using c by simp
  have inner: "py_split CHR '','' (body @ ?Q) = butlast ?B @ [last ?B @ ?Q]"
    using Q by (rule py_split_suffix)
  have B: "?B \<noteq> []" by (rule py_split_nonempty)
  have noparen: "\<And>m. m \<in> set ?B \<Longrightarrow> CHR '')'' \<notin> set m \<and> CHR ''('' \<notin> set m"
    using py_split_subset [of _ "CHR '',''" body] b by blast
  show ?thesis
  proof (cases "butlast ?B")
    case Nil
    then have "py_split CHR '','' (body @ ?Q) = [last ?B @ ?Q]" using inner by simp
    then have "py_split CHR '','' c = [?P @ last ?B @ ?Q]"
      unfolding c' using py_split_prefix [OF P, of "body @ ?Q"] by simp
    moreover have "py_join '','' (py_split CHR '','' c) = c" by (rule py_join_split)
    ultimately have "py_split CHR '','' c = [c]" by simp
    moreover have "\<not> unclosed c" using c by (simp add: unclosed_def)
    ultimately show ?thesis by blast
  next
    case (Cons b0 ms)
    then have "py_split CHR '','' (body @ ?Q) = b0 # ms @ [last ?B @ ?Q]" using inner by simp
    then have s: "py_split CHR '','' c = (?P @ b0) # ms @ [last ?B @ ?Q]"
      unfolding c' using py_split_prefix [OF P, of "body @ ?Q"] by simp
    have "set (butlast ?B) \<subseteq> set ?B" by (meson in_set_butlastD subsetI)
    with Cons have mem: "b0 \<in> set ?B" "set ms \<subseteq> set ?B" by auto
    have "unclosed (?P @ b0)" using p noparen [OF mem(1)] by (simp add: unclosed_def)
    moreover have "\<forall>m\<in>set ms. CHR '')'' \<notin> set m" using mem(2) noparen by blast
    moreover have "CHR '')'' \<in> set (last ?B @ ?Q)" by simp
    ultimately show ?thesis using s by blast
  qed
qed

lemma clause_rejoin:
  assumes "key_clause c"
  shows "rejoin (length pre) (pre @ py_split CHR '','' c @ rest) =
         rejoin (Suc (length pre)) (pre @ c # rest)"
proof -
  from key_clause_fragments [OF assms] show ?thesis
  proof (elim disjE exE conjE)
    assume "py_split CHR '','' c = [c]" and "\<not> unclosed c"
    then show ?thesis using rejoin_pass_at [of c pre rest] by simp
  next
    fix x ms z
    assume s: "py_split CHR '','' c = x # ms @ [z]" and u: "unclosed x"
      and m: "\<forall>m\<in>set ms. CHR '')'' \<notin> set m" and z: "CHR '')'' \<in> set z"
    have "py_join '','' (x # ms @ [z]) = c"
      using py_join_split [of "CHR '',''" c] s by simp
    then show ?thesis using rejoin_group [OF u m z, of pre rest] s by simp
  qed
qed

lemma clauses_rejoin:
  "\<forall>c\<in>set cs. key_clause c \<Longrightarrow>
   rejoin (length pre) (pre @ concat (map (py_split CHR '','') cs)) = Inr (pre @ cs)"
proof (induction cs arbitrary: pre)
  case Nil
  then show ?case by (simp add: rejoin_done)
next
  case (Cons c cs)
  have "rejoin (length pre) (pre @ concat (map (py_split CHR '','') (c # cs))) =
        rejoin (length (pre @ [c])) ((pre @ [c]) @ concat (map (py_split CHR '','') cs))"
    using clause_rejoin [of c pre "concat (map (py_split CHR '','') cs)"] Cons.prems by simp
  also have "\<dots> = Inr ((pre @ [c]) @ cs)"
    using Cons.prems by (intro Cons.IH) simp
  finally show ?case by simp
qed

lemma hd_py_split: "hd (py_split sep s) = takeWhile (\<lambda>x. x \<noteq> sep) s"
proof (induction s)
  case Nil
  then show ?case by simp
next
  case (Cons c s)
  obtain w ws where w: "py_split sep s = w # ws"
    using py_split_nonempty [of sep s] by (cases "py_split sep s") auto
  with Cons show ?case by simp
qed

lemma introduces_key_first_field:
  "introduces_key r =
     (py_lower (takeWhile (\<lambda>x. x \<noteq> CHR '' '') r) \<in> set [''primary'', ''foreign''])"
proof -
  obtain f fs where f: "py_split CHR '' '' r = f # fs"
    using py_split_nonempty [of "CHR '' ''" r] by (cases "py_split CHR '' '' r") auto
  then have "f = takeWhile (\<lambda>x. x \<noteq> CHR '' '') r"
    using hd_py_split [of "CHR '' ''" r] by simp
  with f show ?thesis by (simp add: introduces_key_def)
qed

lemma scan_rows_column:
  assumes "\<not> introduces_key r"
  shows "\<exists>line. scan_rows False rows keys (r # rest) = scan_rows False (rows @ [line]) keys rest"
proof -
  obtain f fs where f: "py_split CHR '' '' r = f # fs"
    using py_split_nonempty [of "CHR '' ''" r] by (cases "py_split CHR '' '' r") auto
  with assms have "py_lower f \<notin> set [''primary'', ''foreign'']"
    by (simp add: introduces_key_def)
  with f show ?thesis by fastforce
qed

lemma scan_rows_key:
  assumes "introduces_key r"
  shows "scan_rows False rows keys (r # rest) = Inr (rows, keys @ r # rest)"
proof -
  obtain f fs where f: "py_split CHR '' '' r = f # fs"
    using py_split_nonempty [of "CHR '' ''" r] by (cases "py_split CHR '' '' r") auto
  with assms have "py_lower f \<in> set [''primary'', ''foreign'']"
    by (simp add: introduces_key_def)
  with f show ?thesis by (simp add: scan_rows_keys)
qed

lemma scan_rows_columns_then_keys:
  assumes "\<forall>r\<in>set cols. \<not> introduces_key r" and "introduces_key f"
  shows "\<exists>rows'. scan_rows False rows keys (cols @ f # rest) = Inr (rows', keys @ f # rest)"
  using assms(1)
proof (induction cols arbitrary: rows)
  case Nil
  then show ?case using scan_rows_key [OF assms(2)] by simp
next
  case (Cons r cols)
  then obtain line where
    "scan_rows False rows keys ((r # cols) @ f # rest) =
     scan_rows False (rows @ [line]) keys (cols @ f # rest)"
    using scan_rows_column [of r rows keys "cols @ f # rest"] by auto
  then show ?case using Cons.IH [of "rows @ [line]"] Cons.prems by simp
qed

lemma lower_char_paren: "lower_char CHR ''('' = CHR ''(''"
  by (simp add: lower_char_def)

lemma paren_word_no_keyword:
  "CHR ''('' \<in> set w \<Longrightarrow> py_lower w \<notin> set [''primary'', ''foreign'']"
proof
  assume a: "CHR ''('' \<in> set w" and "py_lower w \<in> set [''primary'', ''foreign'']"
  from a have "lower_char CHR ''('' \<in> set (py_lower w)" by (simp add: py_lower_def)
  then have "CHR ''('' \<in> set (py_lower w)" by (simp add: lower_char_paren)
  with \<open>py_lower w \<in> set [''primary'', ''foreign'']\<close> show False by auto
qed

lemma key_clause_first_fragment:
  assumes "key_clause c"
  shows "introduces_key (hd (py_split CHR '','' c)) = introduces_key c"
proof -
  from assms obtain p body q where c: "c = p @ CHR ''('' # body @ CHR '')'' # q"
    and p: "CHR '','' \<notin> set p"
    by (rule key_clause_shape)
  let ?rest = "body @ CHR '')'' # q"
  let ?g = "takeWhile (\<lambda>x. x \<noteq> CHR '','') c"
  have g: "?g = p @ CHR ''('' # takeWhile (\<lambda>x. x \<noteq> CHR '','') ?rest"
    unfolding c using p by (subst takeWhile_append2) auto
  show ?thesis
  proof (cases "CHR '' '' \<in> set p")
    case True
    then have "takeWhile (\<lambda>x. x \<noteq> CHR '' '') ?g = takeWhile (\<lambda>x. x \<noteq> CHR '' '') p"
      unfolding g by (intro takeWhile_append1 [of "CHR '' ''"]) auto
    moreover from True have "takeWhile (\<lambda>x. x \<noteq> CHR '' '') c = takeWhile (\<lambda>x. x \<noteq> CHR '' '') p"
      unfolding c by (intro takeWhile_append1 [of "CHR '' ''"]) auto
    ultimately show ?thesis by (simp add: introduces_key_first_field hd_py_split)
  next
    case False
    then have "CHR ''('' \<in> set (takeWhile (\<lambda>x. x \<noteq> CHR '' '') ?g)"
      unfolding g by (subst takeWhile_append2) auto
    moreover from False have "CHR ''('' \<in> set (takeWhile (\<lambda>x. x \<noteq> CHR '' '') c)"
      unfolding c by (subst takeWhile_append2) auto
    ultimately show ?thesis
      using paren_word_no_keyword by (simp only: introduces_key_first_field hd_py_split)
  qed
qed

lemma key_fragments_of_clauses:
  assumes cols: "\<forall>r\<in>set cols. CHR '','' \<notin> set r \<and> \<not> introduces_key r"
    and cs: "cs \<noteq> []" "introduces_key (hd cs)" "\<forall>c\<in>set cs. key_clause c"
  shows "key_fragments (py_join '','' (cols @ cs)) = Inr (concat (map (py_split CHR '','') cs))"
proof -
  obtain c cs' where c: "cs = c # cs'" using cs(1) by (cases cs) auto
  obtain f fs where f: "py_split CHR '','' c = f # fs"
    using py_split_nonempty [of "CHR '',''" c] by (cases "py_split CHR '','' c") auto
  have "introduces_key f"
    using key_clause_first_fragment [of c] cs(2,3) c f by simp
  have "concat (map (py_split CHR '','') cols) = cols"
    using cols by (induction cols) (auto simp: py_split_no_sep)
  then have "py_split CHR '','' (py_join '','' (cols @ cs)) =
        cols @ f # (fs @ concat (map (py_split CHR '','') cs'))"
    using py_split_join [of "cols @ cs" "CHR '',''"] cs(1) c f by simp
  moreover obtain rows' where
    "scan_rows False [] [] (cols @ f # (fs @ concat (map (py_split CHR '','') cs'))) =
       Inr (rows', [] @ f # (fs @ concat (map (py_split CHR '','') cs')))"
    using scan_rows_columns_then_keys [OF _ \<open>introduces_key f\<close>, of cols] cols by blast
  ultimately show ?thesis by (simp add: key_fragments_def c f)
qed

lemma py_join_merge_at:
  "py_join sep (pre @ (x @ sep @ y) # rest) = py_join sep (pre @ x # y # rest)"
proof (induction pre)
  case Nil
  then show ?case by (simp add: py_join_merge)
next
  case (Cons p pre)
  then show ?case by (simp add: py_join_Cons)
qed

lemma rejoin_result:
  "rejoin i keys = Inr ks \<Longrightarrow> \<forall>j<i. \<not> unclosed (keys ! j) \<Longrightarrow>
   (\<forall>k\<in>set ks. \<not> unclosed k) \<and> py_join '','' ks = py_join '','' keys"
proof (induction "2 * length keys - i" arbitrary: i keys rule: less_induct)
  case less
  show ?case
  proof (cases "i < length keys")
    case False
    with less.prems show ?thesis
      by (auto simp: rejoin_done in_set_conv_nth)
  next
    case lt: True
    show ?thesis
    proof (cases "unclosed (keys ! i)")
      case False
      with less.prems(1) lt have r: "rejoin (Suc i) keys = Inr ks" by (simp add: rejoin_pass)
      have "\<forall>j<Suc i. \<not> unclosed (keys ! j)"
        using less.prems(2) False by (auto simp: less_Suc_eq)
      moreover have "2 * length keys - Suc i < 2 * length keys - i" using lt by simp
      ultimately show ?thesis using less.hyps r by blast
    next
      case True
      show ?thesis
      proof (cases "Suc i < length keys")
        case False
        with less.prems(1) lt True show ?thesis by (simp add: rejoin_raise)
      next
        case lt2: True
        let ?x = "keys ! i @ '','' @ keys ! Suc i"
        let ?keys' = "take i keys @ ?x # drop (Suc (Suc i)) keys"
        from less.prems(1) lt2 True have r: "rejoin i ?keys' = Inr ks" by (simp add: rejoin_merge)
        have before: "\<forall>j<i. \<not> unclosed (?keys' ! j)"
          using less.prems(2) lt by (simp add: nth_append)
        have m: "2 * length ?keys' - i < 2 * length keys - i" using lt2 by simp
        have "keys = take i keys @ keys ! i # keys ! Suc i # drop (Suc (Suc i)) keys"
          using lt2 by (metis Cons_nth_drop_Suc Suc_lessD append_take_drop_id)
        then have "py_join '','' keys = py_join '','' ?keys'"
          using py_join_merge_at [of "'',''" "take i keys" "keys ! i" "keys ! Suc i"
                  "drop (Suc (Suc i)) keys"]
          by simp
        moreover from less.hyps [OF m r before]
        have "(\<forall>k\<in>set ks. \<not> unclosed k) \<and> py_join '','' ks = py_join '','' ?keys'" .
        ultimately show ?thesis by simp
      qed
    qed
  qed
qed

lemma key_constraints_of_clauses:
  assumes "\<forall>r\<in>set cols. CHR '','' \<notin> set r \<and> \<not> introduces_key r"
    and "cs \<noteq> []" and "introduces_key (hd cs)" and "\<forall>c\<in>set cs. key_clause c"
  shows "key_constraints (py_join '','' (cols @ cs)) = Inr cs"
  using key_fragments_of_clauses [OF assms] clauses_rejoin [OF assms(4), of "[]"]
  by (simp add: key_constraints_def)

text \<open>
  Claim C3, as the code has it. The rejoin loop puts a fragment together with the next
  one when it holds an opening parenthesis and no closing one, and goes on until it holds
  a closing one; it loses no text, and it leaves no fragment with an opening and no
  closing parenthesis. Take a schema of column clauses followed by key clauses, the
  first of which begins with \<^verbatim>\<open>primary\<close> or \<^verbatim>\<open>foreign\<close>, each key clause shaped as
  \<open>key_clause\<close> says (every comma of the clause stands inside its first parenthesised
  list, none before that list and none after its closing parenthesis, as in
  \<^verbatim>\<open>foreign key(albumid) references albums(rowid)\<close> and
  \<^verbatim>\<open>primary key(albumid, i_index)\<close>). Then the compiled key constraints are exactly the
  key clauses, none split: two of them for a foreign-key clause followed by a
  primary-key clause.
\<close>

theorem key_constraints_unsplit:
  "((\<forall>r\<in>set cols. CHR '','' \<notin> set r \<and> \<not> introduces_key r) \<and> cs \<noteq> [] \<and>
    introduces_key (hd cs) \<and> (\<forall>c\<in>set cs. key_clause c) \<longrightarrow>
      key_constraints (py_join '','' (cols @ cs)) = Inr cs) \<and>
   (rejoin 0 keys = Inr ks \<longrightarrow>
      (\<forall>k\<in>set ks. \<not> unclosed k) \<and> py_join '','' ks = py_join '','' keys)"
  using key_constraints_of_clauses [of cols cs] rejoin_result [of 0 keys ks] by blast

text \<open>The theorem at the declared schema of table \<^verbatim>\<open>medias\<close>.\<close>

theorem key_constraints_unsplit_witness:
  "key_constraints
     (''albumid    integer,'' @
      ''i_index    integer,'' @
      ''url        text,'' @
      ''downloaded integer,'' @
      ''saveas     text,'' @
      ''type       text,'' @
      ''path       text,'' @
      ''width      integer,'' @
      ''height     integer,'' @
      ''filesize   integer,'' @
      ''thumb      text,'' @
      ''t_width    integer,'' @
      ''t_height   integer,'' @
      ''metadata   text,'' @
      ''foreign key(albumid) references albums(rowid),'' @
      ''primary key(albumid, i_index)'') =
   Inr [''foreign key(albumid) references albums(rowid)'', ''primary key(albumid, i_index)''] \<and>
   \<not> unclosed ''primary key(albumid, i_index)''"
proof -
  let ?cols = "[''albumid    integer'', ''i_index    integer'', ''url        text'',
      ''downloaded integer'', ''saveas     text'', ''type       text'', ''path       text'',
      ''width      integer'', ''height     integer'', ''filesize   integer'',
      ''thumb      text'', ''t_width    integer'', ''t_height   integer'', ''metadata   text'']"
  let ?cs = "[''foreign key(albumid) references albums(rowid)'', ''primary key(albumid, i_index)'']"
  have h1: "\<forall>r\<in>set ?cols. CHR '','' \<notin> set r \<and> \<not> introduces_key r" by code_simp
  have h2: "?cs \<noteq> []" by simp
  have h3: "introduces_key (hd ?cs)" by code_simp
  have h4: "\<forall>c\<in>set ?cs. key_clause c" by code_simp
  have j: "py_join '','' (?cols @ ?cs) =
     ''albumid    integer,'' @
      ''i_index    integer,'' @
      ''url        text,'' @
      ''downloaded integer,'' @
      ''saveas     text,'' @
      ''type       text,'' @
      ''path       text,'' @
      ''width      integer,'' @
      ''height     integer,'' @
      ''filesize   integer,'' @
      ''thumb      text,'' @
      ''t_width    integer,'' @
      ''t_height   integer,'' @
      ''metadata   text,'' @
      ''foreign key(albumid) references albums(rowid),'' @
      ''primary key(albumid, i_index)''" by code_simp
  have r: "rejoin 0 [''primary key(albumid'', '' i_index)''] = Inr [''primary key(albumid, i_index)'']"
    by code_simp
  from key_constraints_unsplit
         [of ?cols ?cs "[''primary key(albumid'', '' i_index)'']" "[''primary key(albumid, i_index)'']"]
       h1 h2 h3 h4 r
  have "key_constraints (py_join '','' (?cols @ ?cs)) = Inr ?cs"
    and "\<not> unclosed ''primary key(albumid, i_index)''"
    by simp_all
  then show ?thesis unfolding j by simp
qed

text \<open>
  Claim C3 as the specification words it fails: a fragment with an unmatched opening
  parenthesis that also holds a closing one is not rejoined. A foreign key over two
  columns that references two columns comes out in two pieces, cut inside the second
  parenthesis, and the key group of two clauses gives three entries.
\<close>

theorem composite_reference_counterexample:
  "key_constraints
     ''a integer,b integer,foreign key(a, b) references t(c, d),primary key(a, b)'' =
   Inr [''foreign key(a, b) references t(c'', '' d)'', ''primary key(a, b)'']"
  by code_simp

section \<open>The declared indices and the constructor\<close>

lemma map_of_foldl_update:
  "map_of (foldl (\<lambda>d (k, v). AList.update k v d) d0 entries) = map_of d0 ++ map_of (rev entries)"
proof (induction entries arbitrary: d0)
  case Nil
  then show ?case by simp
next
  case (Cons e entries)
  obtain k v where e: "e = (k, v)" by (cases e)
  have "map_of (AList.update k v d0) ++ map_of (rev entries) =
        map_of d0 ++ (map_of [(k, v)] ++ map_of (rev entries))"
    by (simp add: update_conv' map_add_upd_left fun_eq_iff map_add_def split: option.splits)
  then show ?case by (simp add: Cons.IH e)
qed

lemma distinct_foldl_update:
  "distinct (map fst d0) \<Longrightarrow>
   distinct (map fst (foldl (\<lambda>d (k, v). AList.update k v d) d0 entries))"
  by (induction entries arbitrary: d0) (auto simp: distinct_update)

text \<open>
  Claim C2. A dictionary display keeps, for each key, the value of the last entry with
  that key, and one entry per key. For the declared indices this leaves
  \<^verbatim>\<open>albums: views\<close>, \<^verbatim>\<open>medias: url\<close> and \<^verbatim>\<open>config: key\<close>. On a store that records its
  statements the constructor executes nine of them: six that begin with
  \<^verbatim>\<open>create table if not exists\<close>, and then three, given here in full, that create the
  indices \<^verbatim>\<open>albums_views on albums(views)\<close>, \<^verbatim>\<open>medias_url on medias(url)\<close> and
  \<^verbatim>\<open>config_key on config(key)\<close> (stated as a set: the order of the entries is that of
  the model). \<^verbatim>\<open>create_index\<close> builds a text of this form for each of the ten declared
  entries, and the texts for the seven earlier-declared entries are not among the
  executed statements.
\<close>

theorem only_last_index_per_table:
  "map_of (dict_literal entries) k = map_of (rev entries) k \<and>
   distinct (map fst (dict_literal entries)) \<and>
   set INDICES = {(''albums'', ''views''), (''medias'', ''url''), (''config'', ''key'')} \<and>
   map_option (map_sum id (\<lambda>st. length (store st)))
     (DB_init journal (always Commit_ok) ''database.db'' False []) = Some (Inr 9) \<and>
   length init_statements = 9 \<and>
   map (take 27) (take 6 init_statements) = replicate 6 ''create table if not exists '' \<and>
   set (drop 6 init_statements) =
     {[NL, TAB, TAB, TAB] @ ''create index '' @ [NL, TAB, TAB, TAB, TAB] @ ''if not exists '' @
      [NL, TAB, TAB, TAB, TAB] @ ''albums_views on albums(views)'' @ [NL, TAB, TAB],
      [NL, TAB, TAB, TAB] @ ''create index '' @ [NL, TAB, TAB, TAB, TAB] @ ''if not exists '' @
      [NL, TAB, TAB, TAB, TAB] @ ''medias_url on medias(url)'' @ [NL, TAB, TAB],
      [NL, TAB, TAB, TAB] @ ''create index '' @ [NL, TAB, TAB, TAB, TAB] @ ''if not exists '' @
      [NL, TAB, TAB, TAB, TAB] @ ''config_key on config(key)'' @ [NL, TAB, TAB]} \<and>
   map (\<lambda>(t, c). create_index_query t c None) INDICES_items =
     map (\<lambda>(t, c). [NL, TAB, TAB, TAB] @ ''create index '' @ [NL, TAB, TAB, TAB, TAB] @
                     ''if not exists '' @ [NL, TAB, TAB, TAB, TAB] @
                     t @ ''_'' @ c @ '' on '' @ t @ ''('' @ c @ '')'' @ [NL, TAB, TAB])
       INDICES_items \<and>
   set (map (\<lambda>(t, c). [NL, TAB, TAB, TAB] @ ''create index '' @ [NL, TAB, TAB, TAB, TAB] @
                       ''if not exists '' @ [NL, TAB, TAB, TAB, TAB] @
                       t @ ''_'' @ c @ '' on '' @ t @ ''('' @ c @ '')'' @ [NL, TAB, TAB])
          [(''albums'', ''ready''), (''albums'', ''host''), (''albums'', ''created''),
           (''albums'', ''accessed''), (''medias'', ''albumid''), (''medias'', ''status''),
           (''medias'', ''path'')]) \<inter> set init_statements = {}"
proof (intro conjI)
  show "map_of (dict_literal entries) k = map_of (rev entries) k"
    by (simp add: dict_literal_def map_of_foldl_update)
  show "distinct (map fst (dict_literal entries))"
    unfolding dict_literal_def by (rule distinct_foldl_update) simp
  show "set INDICES = {(''albums'', ''views''), (''medias'', ''url''), (''config'', ''key'')}"
    by code_simp
  show "map_option (map_sum id (\<lambda>st. length (store st)))
     (DB_init journal (always Commit_ok) ''database.db'' False []) = Some (Inr 9)"
    by code_simp
  show "length init_statements = 9"
    by code_simp
  show "map (take 27) (take 6 init_statements) = replicate 6 ''create table if not exists ''"
    by code_simp
  show "set (drop 6 init_statements) =
     {[NL, TAB, TAB, TAB] @ ''create index '' @ [NL, TAB, TAB, TAB, TAB] @ ''if not exists '' @
      [NL, TAB, TAB, TAB, TAB] @ ''albums_views on albums(views)'' @ [NL, TAB, TAB],
      [NL, TAB, TAB, TAB] @ ''create index '' @ [NL, TAB, TAB, TAB, TAB] @ ''if not exists '' @
      [NL, TAB, TAB, TAB, TAB] @ ''medias_url on medias(url)'' @ [NL, TAB, TAB],
      [NL, TAB, TAB, TAB] @ ''create index '' @ [NL, TAB, TAB, TAB, TAB] @ ''if not exists '' @
      [NL, TAB, TAB, TAB, TAB] @ ''config_key on config(key)'' @ [NL, TAB, TAB]}"
    by code_simp
  show "map (\<lambda>(t, c). create_index_query t c None) INDICES_items =
     map (\<lambda>(t, c). [NL, TAB, TAB, TAB] @ ''create index '' @ [NL, TAB, TAB, TAB, TAB] @
                     ''if not exists '' @ [NL, TAB, TAB, TAB, TAB] @
                     t @ ''_'' @ c @ '' on '' @ t @ ''('' @ c @ '')'' @ [NL, TAB, TAB])
       INDICES_items"
    by code_simp
  show "set (map (\<lambda>(t, c). [NL, TAB, TAB, TAB] @ ''create index '' @ [NL, TAB, TAB, TAB, TAB] @
                       ''if not exists '' @ [NL, TAB, TAB, TAB, TAB] @
                       t @ ''_'' @ c @ '' on '' @ t @ ''('' @ c @ '')'' @ [NL, TAB, TAB])
          [(''albums'', ''ready''), (''albums'', ''host''), (''albums'', ''created''),
           (''albums'', ''accessed''), (''medias'', ''albumid''), (''medias'', ''status''),
           (''medias'', ''path'')]) \<inter> set init_statements = {}"
    by code_simp
qed

text \<open>
  Claim C4 does not hold of the code: \<^verbatim>\<open>create_table\<close> and \<^verbatim>\<open>create_index\<close> each end
  with \<^verbatim>\<open>self.commit()\<close>, against their docstrings, so on a store that accepts every
  statement and every commit the constructor commits ten times: once for each of the six
  tables, once for each of the three indices, and once at its end.
\<close>

theorem init_commits_ten_times:
  "map_option (map_sum id commit_calls)
     (create_table journal (always Commit_ok) ''config'' (''key   text primary key,'' @ ''value text'')
        (fresh [])) = Some (Inr 1) \<and>
   map_option (map_sum id commit_calls)
     (create_index journal (always Commit_ok) ''config'' ''key'' None (fresh [])) = Some (Inr 1) \<and>
   map_option (map_sum id commit_calls)
     (DB_init journal (always Commit_ok) ''database.db'' False []) = Some (Inr 10)"
  by code_simp

text \<open>
  Claim C5, as the code has it. \<^verbatim>\<open>create_table\<close> checks no clause. A schema without key
  fragment always compiles to a statement; the only exception that compilation raises is
  the IndexError of the rejoin loop; and when \<^verbatim>\<open>create_table\<close> raises anything else, it
  is what the engine raised on the compiled statement.
\<close>

theorem create_table_no_validation:
  "(key_fragments schema = Inr [] \<longrightarrow> (\<exists>q. create_table_query table_name schema = Inr q)) \<and>
   (create_table_query table_name schema = Inl e \<longrightarrow> e = IndexError) \<and>
   (create_table eng env table_name schema st = Some (Inl e) \<longrightarrow>
      create_table_query table_name schema = Inl IndexError \<and> e = IndexError \<or>
      (\<exists>q. create_table_query table_name schema = Inr q \<and> eng q [] (store st) = Inl e))"
proof (intro conjI impI)
  assume "key_fragments schema = Inr []"
  then show "\<exists>q. create_table_query table_name schema = Inr q"
    by (rule create_table_query_no_keys)
next
  assume "create_table_query table_name schema = Inl e"
  then show "e = IndexError" by (rule create_table_query_error)
next
  assume a: "create_table eng env table_name schema st = Some (Inl e)"
  show "create_table_query table_name schema = Inl IndexError \<and> e = IndexError \<or>
        (\<exists>q. create_table_query table_name schema = Inr q \<and> eng q [] (store st) = Inl e)"
  proof (cases "create_table_query table_name schema")
    case (Inl e')
    then have "e' = IndexError" by (rule create_table_query_error)
    with a Inl show ?thesis by (simp add: create_table_def)
  next
    case (Inr q)
    with a have "eng q [] (store st) = Inl e"
      by (auto simp: create_table_def split: sum.splits)
    with Inr show ?thesis by simp
  qed
qed

text \<open>The theorem at a schema with an empty column clause, and at one that ends inside
  a parenthesis.\<close>

theorem create_table_no_validation_witness:
  "(\<exists>q. create_table_query ''t'' ''id integer,,name text'' = Inr q) \<and>
   create_table journal (always Commit_ok) ''t'' ''id integer,name text,primary key(id'' (fresh [])
     = Some (Inl IndexError)"
proof -
  have k: "key_fragments ''id integer,,name text'' = Inr []"
    by code_simp
  have c: "create_table journal (always Commit_ok) ''t'' ''id integer,name text,primary key(id''
             (fresh []) = Some (Inl IndexError)"
    by code_simp
  from create_table_no_validation
         [of "''id integer,,name text''" "''t''" IndexError journal "always Commit_ok" "fresh []"] k
  have "\<exists>q. create_table_query ''t'' ''id integer,,name text'' = Inr q" by blast
  moreover from create_table_no_validation
         [of "''id integer,name text,primary key(id''" "''t''" IndexError journal
             "always Commit_ok" "fresh []"] c
  have "create_table_query ''t'' ''id integer,name text,primary key(id'' = Inl IndexError \<or>
        (\<exists>q. create_table_query ''t'' ''id integer,name text,primary key(id'' = Inr q \<and>
             journal q [] (store (fresh [])) = Inl IndexError)" by blast
  ultimately show ?thesis using c by blast
qed

text \<open>
  Claim C5 as the specification words it fails: a column clause without a name token
  (the empty clause between two commas) does not make compilation fail. It becomes a
  column line of spaces in the statement.
\<close>

theorem create_table_empty_clause_counterexample:
  "create_table_query ''t'' ''id integer,,name text'' =
     Inr (''create table if not exists t('' @ [NL] @
          ''              id integer,'' @ [NL] @
          ''                 ,'' @ [NL] @
          ''            name text'' @ [NL] @ '')'')"
  by code_simp

section \<open>Tokens of the generated statements\<close>

lemma word_empty [simp]: "word [] = []"
  by (simp add: word_def)

lemma lex_word_run: "list_all ident_char t \<Longrightarrow> sql_lex w (t @ rest) = sql_lex (w @ t) rest"
  by (induction t arbitrary: w) auto

lemma lex_break:
  "DQ \<notin> set s \<Longrightarrow> \<not> ident_char c \<Longrightarrow> c \<noteq> DQ \<Longrightarrow>
   sql_lex w (s @ c # rest) = sql_lex w (s @ [c]) @ sql_lex [] rest"
  by (induction s arbitrary: w) auto

lemma lex_quoted_plain:
  "DQ \<notin> set k \<Longrightarrow> sql_lex_quoted q (k @ DQ # c # rest) =
     (if c = DQ then sql_lex_quoted (q @ k @ [DQ]) rest else Quoted (q @ k) # sql_lex [] (c # rest))"
  by (induction k arbitrary: q) auto

lemma questions_Suc:
  "py_join '','' (replicate (Suc (Suc n)) ''?'') = ''?,'' @ py_join '','' (replicate (Suc n) ''?'')"
  by simp

lemma lex_questions:
  "sql_lex [] (py_join '','' (replicate n ''?'') @ CHR '')'' # rest) =
     question_tokens n @ Sym CHR '')'' # sql_lex [] rest"
proof (induction n rule: question_tokens.induct)
  case 1
  then show ?case by (simp add: ident_char_def is_space_def)
next
  case 2
  then show ?case by (simp add: ident_char_def is_space_def)
next
  case (3 n)
  then show ?case
    by (simp only: questions_Suc question_tokens.simps) (simp add: ident_char_def is_space_def)
qed

lemma placeholders_question_tokens:
  "placeholders (question_tokens n @ [Sym CHR '')'']) = (if n = 0 then None else Some n)"
proof (induction n rule: question_tokens.induct)
  case 1
  then show ?case by simp
next
  case 2
  then show ?case by simp
next
  case (3 n)
  then show ?case by simp
qed

lemma insert_head_tokens:
  "sql_lex [] ([NL, TAB, TAB, TAB] @ ''insert into '' @ [NL, TAB, TAB, TAB, TAB]) =
     [Word ''insert'', Word ''into'']"
  by code_simp

lemma values_tokens:
  "sql_lex [] ([NL, TAB, TAB, TAB, TAB] @ ''values ('') = [Word ''values'', Sym CHR ''('']"
  by code_simp

lemma tail_tokens: "sql_lex [] [NL, TAB, TAB] = []"
  by code_simp

lemma insert_tokens:
  assumes "is_name table"
  shows "sql_tokens (insert_query table vals) =
           [Word ''insert'', Word ''into'', Word (py_lower table), Word ''values'', Sym CHR ''(''] @
           question_tokens (length vals) @ [Sym CHR '')'']"
proof -
  have t: "list_all ident_char table" "table \<noteq> []" using assms by (simp_all add: is_name_def)
  have w: "word ''insert'' = [Word ''insert'']" "word ''into'' = [Word ''into'']"
    "word ''values'' = [Word ''values'']"
    by code_simp+
  have wt: "word table = [Word (py_lower table)]" using t(2) by (simp add: word_def)
  show ?thesis
    using t(1)
    by (simp add: sql_tokens_def insert_query_def lex_word_run lex_questions ident_char_def
          is_space_def w wt tail_tokens [simplified])
qed


lemma question_tokens_count: "count_list (question_tokens n) (Sym CHR ''?'') = n"
  by (induction n rule: question_tokens.induct) auto

lemma question_tokens_terminated: "Unterminated \<notin> set (question_tokens n)"
  by (induction n rule: question_tokens.induct) auto

lemma question_tokens_covered: "list_all covered (question_tokens n)"
  by (induction n rule: question_tokens.induct) auto

lemma count_list_append: "count_list (xs @ ys) a = count_list xs a + count_list ys a"
  by (induction xs) auto

lemma questions_count: "count_list (py_join '','' (replicate n ''?'')) CHR ''?'' = n"
proof (induction n rule: question_tokens.induct)
  case 1
  then show ?case by simp
next
  case 2
  then show ?case by simp
next
  case (3 n)
  then show ?case by (simp only: questions_Suc count_list_append) simp
qed

lemma insert_query_placeholders:
  "count_list (insert_query table vals) CHR ''?'' = count_list table CHR ''?'' + length vals"
  by (simp add: insert_query_def count_list_append questions_count)

lemma insert_parse:
  assumes "is_name table"
  shows "parse (sql_tokens (insert_query table vals)) =
           (if vals = [] then None
            else Some (Insert_stmt False (py_lower table) None (length vals)))"
  by (simp add: insert_tokens [OF assms] parse_def parse_insert_def parse_values_def
        placeholders_question_tokens)

lemma filter_all_kept: "length (filter P xs) = length xs \<Longrightarrow> filter P xs = xs"
proof (induction xs)
  case Nil
  then show ?case by simp
next
  case (Cons x xs)
  have le: "length (filter P xs) \<le> length xs" by (rule length_filter_le)
  show ?case
  proof (cases "P x")
    case True
    with Cons show ?thesis by simp
  next
    case False
    with Cons.prems le show ?thesis by simp
  qed
qed

lemma run_insert_positional:
  assumes "run_insert False t None n vals s = Inr (cur, s')"
  shows "\<exists>tb. map_of s t = Some tb \<and> length vals = length (columns tb) \<and>
              list_all in_int64 vals \<and>
              map_of s' t = Some (tb\<lparr>table_rows := table_rows tb @ [map stored vals],
                                     next_rowid := next_rowid tb + 1\<rparr>)"
proof (cases "map_of s t")
  case None
  with assms show ?thesis by (simp add: run_insert_def)
next
  case (Some tb)
  let ?others = "filter (\<lambda>r. \<not> same_key tb (map stored vals) r) (table_rows tb)"
  from assms Some have n: "n = length (columns tb)" "length vals = n"
    and i: "list_all in_int64 vals"
    and len: "length ?others = length (table_rows tb)"
    and s': "s' = AList.update t (tb\<lparr>table_rows := ?others @ [map stored vals],
                                        next_rowid := next_rowid tb + 1\<rparr>) s"
    by (auto simp: run_insert_def Let_def split: if_splits)
  from len have "?others = table_rows tb" by (rule filter_all_kept)
  with Some n i s' show ?thesis by (simp add: update_conv')
qed

section \<open>Insert\<close>

text \<open>
  Claim C10, as the code has it. \<^verbatim>\<open>insert\<close> writes one question mark for each value and
  the table argument as it is: the statement holds as many question marks as the table
  argument holds, and one more for each value. When the table argument is a plain name
  the statement reads \<^verbatim>\<open>insert into t values (?, ..., ?)\<close>, without a list of columns,
  and on the model an insert of this statement only succeeds when the table is there and
  there are as many values as it has declared columns; the new row then holds the values
  in the order of the declared columns, each as a text column stores it. This fails for
  other table
  arguments: \<^verbatim>\<open>config (key)\<close> brings a list of columns into the statement, and the
  insert of one value succeeds, leaving the other column null.
\<close>

theorem insert_covers_every_column:
  "count_list (insert_query table vals) CHR ''?'' = count_list table CHR ''?'' + length vals \<and>
   (is_name table \<longrightarrow>
      sql_tokens (insert_query table vals) =
        [Word ''insert'', Word ''into'', Word (py_lower table), Word ''values'', Sym CHR ''(''] @
        question_tokens (length vals) @ [Sym CHR '')''] \<and>
      parse (sql_tokens (insert_query table vals)) =
        (if vals = [] then None
         else Some (Insert_stmt False (py_lower table) None (length vals))) \<and>
      (\<forall>rid st'. insert_db sqlite_model table vals st = Inr (rid, st') \<longrightarrow>
         (\<exists>tb. map_of (store st) (py_lower table) = Some tb \<and>
               length vals = length (columns tb) \<and> list_all in_int64 vals \<and>
               map_of (store st') (py_lower table) =
                 Some (tb\<lparr>table_rows := table_rows tb @ [map stored vals],
                          next_rowid := next_rowid tb + 1\<rparr>)))) \<and>
   insert_db sqlite_model ''config (key)'' [Text ''sub''] (fresh (config_store [])) =
     Inr (Some 1,
          \<lparr>store = [(''config'', \<lparr>columns = [''key'', ''value''], key_columns = [''key''],
                                  table_rows = [[Text ''sub'', Null]], next_rowid = 2\<rparr>)],
           commit_calls = 0, slept_ms = 0, log = []\<rparr>)"
proof (intro conjI impI allI)
  show "count_list (insert_query table vals) CHR ''?'' = count_list table CHR ''?'' + length vals"
    by (rule insert_query_placeholders)
next
  assume name: "is_name table"
  show tokens: "sql_tokens (insert_query table vals) =
       [Word ''insert'', Word ''into'', Word (py_lower table), Word ''values'', Sym CHR ''(''] @
       question_tokens (length vals) @ [Sym CHR '')'']"
    by (rule insert_tokens [OF name])
  show "parse (sql_tokens (insert_query table vals)) =
        (if vals = [] then None
         else Some (Insert_stmt False (py_lower table) None (length vals)))"
    by (rule insert_parse [OF name])
  fix rid st'
  assume ok: "insert_db sqlite_model table vals st = Inr (rid, st')"
  then obtain cur s' where e: "sqlite_model (insert_query table vals) vals (store st) = Inr (cur, s')"
    and st': "store st' = s'"
    by (auto simp: insert_db_def split: sum.splits)
  from e have "run_insert False (py_lower table) None (length vals) vals (store st) = Inr (cur, s')"
    by (auto simp: sqlite_model_def Let_def insert_parse [OF name] split: if_splits)
  then show "\<exists>tb. map_of (store st) (py_lower table) = Some tb \<and>
               length vals = length (columns tb) \<and> list_all in_int64 vals \<and>
               map_of (store st') (py_lower table) =
                 Some (tb\<lparr>table_rows := table_rows tb @ [map stored vals],
                          next_rowid := next_rowid tb + 1\<rparr>)"
    unfolding st' by (rule run_insert_positional)
next
  show "insert_db sqlite_model ''config (key)'' [Text ''sub''] (fresh (config_store [])) =
     Inr (Some 1,
          \<lparr>store = [(''config'', \<lparr>columns = [''key'', ''value''], key_columns = [''key''],
                                  table_rows = [[Text ''sub'', Null]], next_rowid = 2\<rparr>)],
           commit_calls = 0, slept_ms = 0, log = []\<rparr>)"
    by code_simp
qed

text \<open>The theorem at an insert of a key and a value into \<^verbatim>\<open>config\<close>.\<close>

theorem insert_covers_every_column_witness:
  "sql_tokens (insert_query ''config'' [Text ''a'', Text ''b'']) =
     [Word ''insert'', Word ''into'', Word ''config'', Word ''values'', Sym CHR ''('',
      Sym CHR ''?'', Sym CHR '','', Sym CHR ''?'', Sym CHR '')''] \<and>
   (\<exists>tb. map_of (config_store []) ''config'' = Some tb \<and> length (columns tb) = 2)"
proof -
  have n: "is_name ''config''" by code_simp
  have l: "py_lower ''config'' = ''config''" by code_simp
  have r: "insert_db sqlite_model ''config'' [Text ''a'', Text ''b''] (fresh (config_store [])) =
             Inr (Some 1,
               \<lparr>store = [(''config'', \<lparr>columns = [''key'', ''value''], key_columns = [''key''],
                  table_rows = [[Text ''a'', Text ''b'']], next_rowid = 2\<rparr>)],
                commit_calls = 0, slept_ms = 0, log = []\<rparr>)"
    by code_simp
  have s: "store (fresh (config_store [])) = config_store []" by (simp add: fresh_def)
  from insert_covers_every_column
         [of "''config''" "[Text ''a'', Text ''b'']" "fresh (config_store [])"] n l r s
  show ?thesis by (auto simp: numeral_2_eq_2)
qed

text \<open>
  Claim C10 as the specification words it fails: the table argument is not checked, so
  with \<^verbatim>\<open>config (key)\<close> the statement names a column, and an insert of one value into
  the table of two columns succeeds.
\<close>

theorem insert_column_subset_counterexample:
  "sql_tokens (insert_query ''config (key)'' [Text ''sub'']) =
     [Word ''insert'', Word ''into'', Word ''config'', Sym CHR ''('', Word ''key'', Sym CHR '')'',
      Word ''values'', Sym CHR ''('', Sym CHR ''?'', Sym CHR '')''] \<and>
   insert_db sqlite_model ''config (key)'' [Text ''sub''] (fresh (config_store [])) =
     Inr (Some 1,
          \<lparr>store = [(''config'', \<lparr>columns = [''key'', ''value''], key_columns = [''key''],
                                  table_rows = [[Text ''sub'', Null]], next_rowid = 2\<rparr>)],
           commit_calls = 0, slept_ms = 0, log = []\<rparr>)"
  by code_simp

section \<open>select\_one\<close>

lemma select_words:
  "word ''select'' = [Word ''select'']" "word ''FROM'' = [Word ''from'']"
  "word ''WHERE'' = [Word ''where'']" "word ''max'' = [Word ''max'']"
  "word ''count'' = [Word ''count'']"
  by code_simp+

lemma word_name: "is_name t \<Longrightarrow> word t = [Word (py_lower t)]"
  by (simp add: word_def is_name_def)

lemma select_column_tokens:
  assumes "is_name what" and "is_name table" and "is_name k" and "DQ \<notin> set lit"
  shows "sql_tokens (select_query what table (equals_text k lit)) =
           [Word ''select'', Word (py_lower what), Word ''from'', Word (py_lower table),
            Word ''where'', Word (py_lower k), Sym CHR ''='', Quoted lit]"
proof -
  have n: "list_all ident_char what" "list_all ident_char table" "list_all ident_char k"
    using assms(1-3) by (simp_all add: is_name_def)
  show ?thesis
    using n assms(4)
    by (simp add: sql_tokens_def select_query_def equals_text_def lex_word_run lex_quoted_plain
          ident_char_def is_space_def select_words word_name [OF assms(1)] word_name [OF assms(2)]
          word_name [OF assms(3)])
qed

lemma select_max_tokens:
  assumes "is_name c" and "is_name table" and "is_name k" and "DQ \<notin> set lit"
  shows "sql_tokens (select_query (''max('' @ c @ '')'') table (equals_text k lit)) =
           [Word ''select'', Word ''max'', Sym CHR ''('', Word (py_lower c), Sym CHR '')'',
            Word ''from'', Word (py_lower table),
            Word ''where'', Word (py_lower k), Sym CHR ''='', Quoted lit]"
proof -
  have n: "list_all ident_char c" "list_all ident_char table" "list_all ident_char k"
    using assms(1-3) by (simp_all add: is_name_def)
  show ?thesis
    using n assms(4)
    by (simp add: sql_tokens_def select_query_def equals_text_def lex_word_run lex_quoted_plain
          ident_char_def is_space_def select_words word_name [OF assms(1)] word_name [OF assms(2)]
          word_name [OF assms(3)])
qed

lemma select_count_tokens:
  assumes "is_name table" and "is_name k" and "DQ \<notin> set lit"
  shows "sql_tokens (select_query ''count(*)'' table (equals_text k lit)) =
           [Word ''select'', Word ''count'', Sym CHR ''('', Sym CHR ''*'', Sym CHR '')'',
            Word ''from'', Word (py_lower table),
            Word ''where'', Word (py_lower k), Sym CHR ''='', Quoted lit]"
proof -
  have n: "list_all ident_char table" "list_all ident_char k"
    using assms(1-2) by (simp_all add: is_name_def)
  show ?thesis
    using n assms(3)
    by (simp add: sql_tokens_def select_query_def equals_text_def lex_word_run lex_quoted_plain
          ident_char_def is_space_def select_words word_name [OF assms(1)] word_name [OF assms(2)])
qed

lemma run_select_text:
  assumes "map_of s t = Some tb"
    and "k \<in> set (columns tb)"
    and "case p of Column c \<Rightarrow> c \<in> set (columns tb) | Max_of c \<Rightarrow> c \<in> set (columns tb)
                  | Count_rows \<Rightarrow> True"
    and "py_lower lit \<notin> set ([''rowid'', ''oid'', ''_rowid_''] @ columns tb)"
  shows "run_select p t k lit [] s =
           Inr (\<lparr>result_rows =
                   (case p of
                      Column c \<Rightarrow> map (\<lambda>r. [field tb c r])
                                    (filter (\<lambda>r. field tb k r = Text lit) (table_rows tb))
                    | Max_of c \<Rightarrow> [[max_value (map (field tb c)
                                    (filter (\<lambda>r. field tb k r = Text lit) (table_rows tb)))]]
                    | Count_rows \<Rightarrow> [[Integer (int (length
                                    (filter (\<lambda>r. field tb k r = Text lit) (table_rows tb))))]]),
                 lastrowid = None\<rparr>, s)"
  using assms
  by (cases p) (auto simp: run_select_def Let_def rowid_name_def)

lemma select_one_column:
  assumes "text_condition st table tb k lit" and "is_name what"
    and "py_lower what \<in> set (columns tb)"
  shows "select_one sqlite_model what table (equals_text k lit) [] st =
           (case matching tb k lit of
              [] \<Rightarrow> Inl (Exception ''no rows returned'')
            | r # rs \<Rightarrow> Inr (field tb (py_lower what) r, st))"
proof -
  from assms(1) have c: "is_name table" "is_name k" "DQ \<notin> set lit"
    "map_of (store st) (py_lower table) = Some tb" "py_lower k \<in> set (columns tb)"
    "py_lower lit \<notin> set ([''rowid'', ''oid'', ''_rowid_''] @ columns tb)"
    by (simp_all add: text_condition_def)
  have t: "sql_tokens (select_query what table (equals_text k lit)) =
           [Word ''select'', Word (py_lower what), Word ''from'', Word (py_lower table),
            Word ''where'', Word (py_lower k), Sym CHR ''='', Quoted lit]"
    by (rule select_column_tokens [OF assms(2) c(1,2,3)])
  have p: "parse (sql_tokens (select_query what table (equals_text k lit))) =
             Some (Select_stmt (Column (py_lower what)) (py_lower table) (py_lower k) lit)"
    by (simp only: t) (simp add: parse_def parse_select_def parse_condition_def)
  have "sqlite_model (select_query what table (equals_text k lit)) [] (store st) =
          run_select (Column (py_lower what)) (py_lower table) (py_lower k) lit [] (store st)"
    by (simp only: sqlite_model_def Let_def t) (simp add: p [unfolded t])
  also have "\<dots> = Inr (\<lparr>result_rows = map (\<lambda>r. [field tb (py_lower what) r]) (matching tb k lit),
                          lastrowid = None\<rparr>, store st)"
    using run_select_text [OF c(4,5) _ c(6), of "Column (py_lower what)"] assms(3)
    by (simp add: matching_def)
  finally show ?thesis
    by (cases "matching tb k lit") (simp_all add: select_one_def select_db_def fetchone_def)
qed

lemma select_one_max:
  assumes "text_condition st table tb k lit" and "is_name c"
    and "py_lower c \<in> set (columns tb)"
  shows "select_one sqlite_model (''max('' @ c @ '')'') table (equals_text k lit) [] st =
           Inr (max_value (map (field tb (py_lower c)) (matching tb k lit)), st)"
proof -
  from assms(1) have c: "is_name table" "is_name k" "DQ \<notin> set lit"
    "map_of (store st) (py_lower table) = Some tb" "py_lower k \<in> set (columns tb)"
    "py_lower lit \<notin> set ([''rowid'', ''oid'', ''_rowid_''] @ columns tb)"
    by (simp_all add: text_condition_def)
  have t: "sql_tokens (select_query (''max('' @ c @ '')'') table (equals_text k lit)) =
           [Word ''select'', Word ''max'', Sym CHR ''('', Word (py_lower c), Sym CHR '')'',
            Word ''from'', Word (py_lower table),
            Word ''where'', Word (py_lower k), Sym CHR ''='', Quoted lit]"
    by (rule select_max_tokens [OF assms(2) c(1,2,3)])
  have p: "parse (sql_tokens (select_query (''max('' @ c @ '')'') table (equals_text k lit))) =
             Some (Select_stmt (Max_of (py_lower c)) (py_lower table) (py_lower k) lit)"
    by (simp only: t) (simp add: parse_def parse_select_def parse_condition_def)
  have "sqlite_model (select_query (''max('' @ c @ '')'') table (equals_text k lit)) [] (store st) =
          run_select (Max_of (py_lower c)) (py_lower table) (py_lower k) lit [] (store st)"
    by (simp only: sqlite_model_def Let_def t) (simp add: p [unfolded t])
  also have "\<dots> = Inr (\<lparr>result_rows = [[max_value (map (field tb (py_lower c)) (matching tb k lit))]],
                          lastrowid = None\<rparr>, store st)"
    using run_select_text [OF c(4,5) _ c(6), of "Max_of (py_lower c)"] assms(3)
    by (simp add: matching_def)
  finally show ?thesis
    by (simp add: select_one_def select_db_def fetchone_def)
qed

lemma select_one_count:
  assumes "text_condition st table tb k lit"
  shows "select_one sqlite_model ''count(*)'' table (equals_text k lit) [] st =
           Inr (Integer (int (length (matching tb k lit))), st)"
proof -
  from assms(1) have c: "is_name table" "is_name k" "DQ \<notin> set lit"
    "map_of (store st) (py_lower table) = Some tb" "py_lower k \<in> set (columns tb)"
    "py_lower lit \<notin> set ([''rowid'', ''oid'', ''_rowid_''] @ columns tb)"
    by (simp_all add: text_condition_def)
  have t: "sql_tokens (select_query ''count(*)'' table (equals_text k lit)) =
           [Word ''select'', Word ''count'', Sym CHR ''('', Sym CHR ''*'', Sym CHR '')'',
            Word ''from'', Word (py_lower table),
            Word ''where'', Word (py_lower k), Sym CHR ''='', Quoted lit]"
    by (rule select_count_tokens [OF c(1,2,3)])
  have p: "parse (sql_tokens (select_query ''count(*)'' table (equals_text k lit))) =
             Some (Select_stmt Count_rows (py_lower table) (py_lower k) lit)"
    by (simp only: t) (simp add: parse_def parse_select_def parse_condition_def)
  have "sqlite_model (select_query ''count(*)'' table (equals_text k lit)) [] (store st) =
          run_select Count_rows (py_lower table) (py_lower k) lit [] (store st)"
    by (simp only: sqlite_model_def Let_def t) (simp add: p [unfolded t])
  also have "\<dots> = Inr (\<lparr>result_rows = [[Integer (int (length (matching tb k lit)))]],
                          lastrowid = None\<rparr>, store st)"
    using run_select_text [OF c(4,5) _ c(6), of Count_rows]
    by (simp add: matching_def)
  finally show ?thesis
    by (simp add: select_one_def select_db_def fetchone_def)
qed

lemma max_value_empty: "max_value [] = Null"
  by (simp add: max_value_def)

text \<open>
  Claim C6, as the code has it. \<^verbatim>\<open>select_one\<close> returns the first column of the first
  row that the engine gives for the statement, and raises
  \<^verbatim>\<open>Exception('no rows returned')\<close> when it gives none: this holds for every engine. On
  the model, for a column as projection and a predicate \<^verbatim>\<open>k = "text"\<close>, the rows given
  are the matching rows of the table: the result is the column of the first matching
  row, or the exception when no row matches. For the projections \<^verbatim>\<open>max(column)\<close> and
  \<^verbatim>\<open>count(*)\<close> the statement gives one row whatever matches; when no row matches,
  \<^verbatim>\<open>select_one\<close> returns \<open>Null\<close> (Python's \<^verbatim>\<open>None\<close>) for the first and \<open>0\<close> for the second, and
  raises nothing.
\<close>

theorem select_one_first_column_or_exception:
  "(eng (select_query what table wher) vals (store st0) = Inr (cur, s') \<and>
      result_rows cur = (c # cs) # others \<longrightarrow>
    select_one eng what table wher vals st0 = Inr (c, st0\<lparr>store := s'\<rparr>)) \<and>
   (eng (select_query what table wher) vals (store st0) = Inr (cur, s') \<and> result_rows cur = [] \<longrightarrow>
    select_one eng what table wher vals st0 = Inl (Exception ''no rows returned'')) \<and>
   (text_condition st tbl tb k lit \<and> is_name col \<and> py_lower col \<in> set (columns tb) \<longrightarrow>
    select_one sqlite_model col tbl (equals_text k lit) [] st =
      (case matching tb k lit of
         [] \<Rightarrow> Inl (Exception ''no rows returned'')
       | r # rs \<Rightarrow> Inr (field tb (py_lower col) r, st))) \<and>
   (text_condition st tbl tb k lit \<and> is_name col \<and> py_lower col \<in> set (columns tb) \<and>
      matching tb k lit = [] \<longrightarrow>
    select_one sqlite_model (''max('' @ col @ '')'') tbl (equals_text k lit) [] st =
      Inr (Null, st)) \<and>
   (text_condition st tbl tb k lit \<longrightarrow>
    select_one sqlite_model ''count(*)'' tbl (equals_text k lit) [] st =
      Inr (Integer (int (length (matching tb k lit))), st))"
proof (intro conjI impI)
  assume "eng (select_query what table wher) vals (store st0) = Inr (cur, s') \<and>
      result_rows cur = (c # cs) # others"
  then show "select_one eng what table wher vals st0 = Inr (c, st0\<lparr>store := s'\<rparr>)"
    by (simp add: select_one_def select_db_def fetchone_def)
next
  assume "eng (select_query what table wher) vals (store st0) = Inr (cur, s') \<and> result_rows cur = []"
  then show "select_one eng what table wher vals st0 = Inl (Exception ''no rows returned'')"
    by (simp add: select_one_def select_db_def fetchone_def)
next
  assume "text_condition st tbl tb k lit \<and> is_name col \<and> py_lower col \<in> set (columns tb)"
  then show "select_one sqlite_model col tbl (equals_text k lit) [] st =
      (case matching tb k lit of
         [] \<Rightarrow> Inl (Exception ''no rows returned'')
       | r # rs \<Rightarrow> Inr (field tb (py_lower col) r, st))"
    by (intro select_one_column) simp_all
next
  assume a: "text_condition st tbl tb k lit \<and> is_name col \<and> py_lower col \<in> set (columns tb) \<and>
      matching tb k lit = []"
  then have "select_one sqlite_model (''max('' @ col @ '')'') tbl (equals_text k lit) [] st =
           Inr (max_value (map (field tb (py_lower col)) (matching tb k lit)), st)"
    by (intro select_one_max) simp_all
  with a show "select_one sqlite_model (''max('' @ col @ '')'') tbl (equals_text k lit) [] st =
      Inr (Null, st)"
    by (simp add: max_value_empty)
next
  assume "text_condition st tbl tb k lit"
  then show "select_one sqlite_model ''count(*)'' tbl (equals_text k lit) [] st =
      Inr (Integer (int (length (matching tb k lit))), st)"
    by (rule select_one_count)
qed

text \<open>The theorem on a \<^verbatim>\<open>config\<close> table with two rows, for a key that is there and for
  a key that is not.\<close>

theorem select_one_first_column_or_exception_witness:
  "select_one sqlite_model ''value'' ''config'' (equals_text ''key'' ''a'') []
     (fresh (config_store [[Text ''a'', Text ''b''], [Text ''c'', Text ''d'']])) =
     Inr (Text ''b'', fresh (config_store [[Text ''a'', Text ''b''], [Text ''c'', Text ''d'']])) \<and>
   select_one sqlite_model ''value'' ''config'' (equals_text ''key'' ''z'') []
     (fresh (config_store [[Text ''a'', Text ''b''], [Text ''c'', Text ''d'']])) =
     Inl (Exception ''no rows returned'') \<and>
   select_one sqlite_model ''max(value)'' ''config'' (equals_text ''key'' ''z'') []
     (fresh (config_store [[Text ''a'', Text ''b''], [Text ''c'', Text ''d'']])) =
     Inr (Null, fresh (config_store [[Text ''a'', Text ''b''], [Text ''c'', Text ''d'']])) \<and>
   select_one sqlite_model ''count(*)'' ''config'' (equals_text ''key'' ''z'') []
     (fresh (config_store [[Text ''a'', Text ''b''], [Text ''c'', Text ''d'']])) =
     Inr (Integer 0, fresh (config_store [[Text ''a'', Text ''b''], [Text ''c'', Text ''d'']]))"
proof -
  let ?rows = "[[Text ''a'', Text ''b''], [Text ''c'', Text ''d'']]"
  let ?st = "fresh (config_store ?rows)"
  let ?tb = "\<lparr>columns = [''key'', ''value''], key_columns = [''key''],
              table_rows = ?rows, next_rowid = 3\<rparr>"
  let ?cur = "\<lparr>result_rows = [[Text ''b'']], lastrowid = None\<rparr>"
  let ?none = "\<lparr>result_rows = [], lastrowid = None\<rparr>"
  have ea: "sqlite_model (select_query ''value'' ''config'' (equals_text ''key'' ''a'')) []
             (store ?st) = Inr (?cur, config_store ?rows)"
    by code_simp
  have ez: "sqlite_model (select_query ''value'' ''config'' (equals_text ''key'' ''z'')) []
             (store ?st) = Inr (?none, config_store ?rows)"
    by code_simp
  have ca: "text_condition ?st ''config'' ?tb ''key'' ''a''" by code_simp
  have cz: "text_condition ?st ''config'' ?tb ''key'' ''z''" by code_simp
  have n: "is_name ''value''" "py_lower ''value'' = ''value''" by code_simp+
  have ma: "matching ?tb ''key'' ''a'' = [[Text ''a'', Text ''b'']]" by code_simp
  have mz: "matching ?tb ''key'' ''z'' = []" by code_simp
  have f: "field ?tb (py_lower ''value'') [Text ''a'', Text ''b''] = Text ''b''" by code_simp
  have s: "?st\<lparr>store := config_store ?rows\<rparr> = ?st" by (simp add: fresh_def)
  have 1: "select_one sqlite_model ''value'' ''config'' (equals_text ''key'' ''a'') [] ?st =
             Inr (Text ''b'', ?st)"
    using select_one_first_column_or_exception
            [where eng = sqlite_model and what = "''value''" and table = "''config''"
               and wher = "equals_text ''key'' ''a''" and vals = "[]" and ?st0.0 = ?st and cur = ?cur
               and s' = "config_store ?rows" and c = "Text ''b''" and cs = "[]" and others = "[]"
               and st = ?st and tbl = "''config''" and tb = ?tb and k = "''key''" and lit = "''a''"
               and col = "''value''"]
          ea ca n ma f s
    by simp
  have 2: "select_one sqlite_model ''value'' ''config'' (equals_text ''key'' ''z'') [] ?st =
             Inl (Exception ''no rows returned'')"
    and 3: "select_one sqlite_model ''max(value)'' ''config'' (equals_text ''key'' ''z'') [] ?st =
             Inr (Null, ?st)"
    and 4: "select_one sqlite_model ''count(*)'' ''config'' (equals_text ''key'' ''z'') [] ?st =
             Inr (Integer 0, ?st)"
    using select_one_first_column_or_exception
            [where eng = sqlite_model and what = "''value''" and table = "''config''"
               and wher = "equals_text ''key'' ''z''" and vals = "[]" and ?st0.0 = ?st and cur = ?none
               and s' = "config_store ?rows" and c = Null and cs = "[]" and others = "[]"
               and st = ?st and tbl = "''config''" and tb = ?tb and k = "''key''" and lit = "''z''"
               and col = "''value''"]
          ez cz n mz
    by simp_all
  from 1 2 3 4 show ?thesis by simp
qed

text \<open>
  Claim C6 as the specification words it fails: with the projection \<^verbatim>\<open>max(value)\<close> and
  a predicate that no row matches, \<^verbatim>\<open>select_one\<close> raises nothing and returns \<open>Null\<close>.
\<close>

theorem select_one_aggregate_counterexample:
  "select_one sqlite_model ''max(value)'' ''config'' (equals_text ''key'' ''z'') []
     (fresh (config_store [[Text ''a'', Text ''b'']])) =
   Inr (Null, fresh (config_store [[Text ''a'', Text ''b'']]))"
  by code_simp

section \<open>The config table\<close>

lemma lex_quoted_nonempty: "sql_lex_quoted q s \<noteq> []"
proof (induction s arbitrary: q rule: length_induct)
  case (1 s)
  show ?case
  proof (cases s)
    case Nil
    then show ?thesis by simp
  next
    case (Cons c cs)
    show ?thesis
    proof (cases "c = DQ")
      case False
      then show ?thesis using 1 Cons by simp
    next
      case True
      show ?thesis
      proof (cases cs)
        case Nil
        then show ?thesis using True Cons by simp
      next
        case (Cons d ds)
        then show ?thesis using True \<open>s = c # cs\<close> 1 by (cases "d = DQ") simp_all
      qed
    qed
  qed
qed

lemma quote_no_ident_char: "\<not> ident_char DQ"
  by (simp add: ident_char_def)

lemma takeWhile_all_then_stop:
  "\<forall>x\<in>set xs. P x \<Longrightarrow> \<not> P y \<Longrightarrow> takeWhile P (xs @ y # ys) = xs"
  by (induction xs) auto

lemma lex_empty_no_quote: "sql_lex w s = [] \<Longrightarrow> DQ \<notin> set s"
proof (induction s arbitrary: w)
  case Nil
  then show ?case by simp
next
  case (Cons c s)
  then show ?case
    by (auto simp: lex_quoted_nonempty quote_no_ident_char split: if_splits)
qed

lemma lex_quoted_closing:
  "sql_lex_quoted q s = Quoted r # ts \<Longrightarrow>
   \<exists>s1 s2. s = s1 @ DQ # s2 \<and> ts = sql_lex [] s2 \<and>
           2 * length r + count_list s1 DQ = 2 * (length q + length s1)"
proof (induction s arbitrary: q rule: length_induct)
  case (1 s)
  show ?case
  proof (cases s)
    case Nil
    with "1.prems" show ?thesis by simp
  next
    case (Cons c cs)
    show ?thesis
    proof (cases "c = DQ")
      case False
      with "1.prems" Cons have "sql_lex_quoted (q @ [c]) cs = Quoted r # ts" by simp
      moreover have "length cs < length s" using Cons by simp
      ultimately obtain s1 s2 where "cs = s1 @ DQ # s2" "ts = sql_lex [] s2"
        "2 * length r + count_list s1 DQ = 2 * (length (q @ [c]) + length s1)"
        using "1.IH" by blast
      then have "s = (c # s1) @ DQ # s2 \<and> ts = sql_lex [] s2 \<and>
           2 * length r + count_list (c # s1) DQ = 2 * (length q + length (c # s1))"
        using Cons False by simp
      then show ?thesis by blast
    next
      case True
      show ?thesis
      proof (cases cs)
        case Nil
        with "1.prems" Cons True have "r = q" "ts = []" by simp_all
        then have "s = [] @ DQ # [] \<and> ts = sql_lex [] [] \<and>
           2 * length r + count_list [] DQ = 2 * (length q + length ([] :: string))"
          using Cons True Nil by simp
        then show ?thesis by blast
      next
        case inner: (Cons d ds)
        show ?thesis
        proof (cases "d = DQ")
          case False
          with "1.prems" Cons True inner have "r = q" "ts = sql_lex [] cs" by simp_all
          then have "s = [] @ DQ # cs \<and> ts = sql_lex [] cs \<and>
             2 * length r + count_list [] DQ = 2 * (length q + length ([] :: string))"
            using Cons True by simp
          then show ?thesis by blast
        next
          case dq: True
          with "1.prems" Cons True inner have "sql_lex_quoted (q @ [DQ]) ds = Quoted r # ts" by simp
          moreover have "length ds < length s" using Cons inner by simp
          ultimately obtain s1 s2 where "ds = s1 @ DQ # s2" "ts = sql_lex [] s2"
            "2 * length r + count_list s1 DQ = 2 * (length (q @ [DQ]) + length s1)"
            using "1.IH" by blast
          then have "s = (DQ # DQ # s1) @ DQ # s2 \<and> ts = sql_lex [] s2 \<and>
             2 * length r + count_list (DQ # DQ # s1) DQ = 2 * (length q + length (DQ # DQ # s1))"
            using Cons True inner dq by simp
          then show ?thesis by blast
        qed
      qed
    qed
  qed
qed

lemma last_occurrence:
  assumes "xs @ a # ys = xs' @ a # ys'" and "a \<notin> set ys" and "a \<notin> set ys'"
  shows "xs = xs'"
proof -
  have "takeWhile (\<lambda>x. x \<noteq> a) (rev (xs @ a # ys)) = rev ys"
    using assms(2) takeWhile_all_then_stop [of "rev ys" "\<lambda>x. x \<noteq> a" a "rev xs"] by auto
  moreover have "takeWhile (\<lambda>x. x \<noteq> a) (rev (xs' @ a # ys')) = rev ys'"
    using assms(3) takeWhile_all_then_stop [of "rev ys'" "\<lambda>x. x \<noteq> a" a "rev xs'"] by auto
  ultimately have "ys = ys'" using assms(1) by (metis rev_rev_ident)
  with assms(1) show ?thesis by simp
qed

lemma quoted_key_no_quote:
  assumes "sql_lex_quoted [] (key @ DQ # [NL, TAB, TAB]) = [Quoted key]"
  shows "DQ \<notin> set key"
proof -
  from lex_quoted_closing [OF assms] obtain s1 s2 where
    s: "key @ DQ # [NL, TAB, TAB] = s1 @ DQ # s2" and e: "[] = sql_lex [] s2"
    and n: "2 * length key + count_list s1 DQ = 2 * (length ([] :: string) + length s1)"
    by blast
  from e have "DQ \<notin> set s2" using lex_empty_no_quote [of "[]" s2] by simp
  moreover have "DQ \<notin> set [NL, TAB, TAB]" by simp
  ultimately have "key = s1"
    using last_occurrence [of key DQ "[NL, TAB, TAB]" s1 s2] s by simp
  with n have "count_list key DQ = 0" by simp
  then show ?thesis by (simp add: count_list_0_iff)
qed

lemma config_words:
  "word ''value'' = [Word ''value'']" "word ''from'' = [Word ''from'']"
  "word ''config'' = [Word ''config'']" "word ''where'' = [Word ''where'']"
  "word ''key'' = [Word ''key'']"
  by code_simp+

lemma get_config_lex:
  "sql_tokens (get_config_query key) =
     config_select @ sql_lex_quoted [] (key @ DQ # [NL, TAB, TAB])"
  by (simp add: sql_tokens_def get_config_query_def config_select_def ident_char_def
        is_space_def select_words config_words)

lemma get_config_tokens:
  assumes "DQ \<notin> set key"
  shows "sql_tokens (get_config_query key) = config_select @ [Quoted key]"
  using assms
  by (simp add: get_config_lex lex_quoted_plain ident_char_def is_space_def)

lemma get_config_tokens_iff:
  "(sql_tokens (get_config_query key) = config_select @ [Quoted key]) = (DQ \<notin> set key)"
proof
  assume "sql_tokens (get_config_query key) = config_select @ [Quoted key]"
  then have "sql_lex_quoted [] (key @ DQ # [NL, TAB, TAB]) = [Quoted key]"
    by (simp add: get_config_lex)
  then show "DQ \<notin> set key" by (rule quoted_key_no_quote)
next
  assume "DQ \<notin> set key"
  then show "sql_tokens (get_config_query key) = config_select @ [Quoted key]"
    by (rule get_config_tokens)
qed

text \<open>
  Claim C8, as the code has it. The statement of \<^verbatim>\<open>get_config\<close> is written from the key,
  and different keys give different statements; on a store that records what is
  executed, \<^verbatim>\<open>get_config\<close> executes this statement with nothing bound, where
  \<^verbatim>\<open>set_config\<close> executes one fixed statement with the key and the value bound. The
  statement reads as \<^verbatim>\<open>select value from config where key =\<close> followed by the key as one
  quoted token exactly when the key holds no double quote. With the key \<^verbatim>\<open>a"b\<close> the
  quoted token ends after \<^verbatim>\<open>a\<close>, and a word and a token without end follow it. With the
  key \<^verbatim>\<open>a""b\<close> the statement keeps its form, and its quoted token is \<^verbatim>\<open>a"b\<close>, not the key.
\<close>

theorem get_config_text_depends_on_key:
  "(get_config_query k1 = get_config_query k2) = (k1 = k2) \<and>
   get_config journal key (fresh s) =
     Inr (Null, (fresh s)\<lparr>store := s @ [(get_config_query key, [])]\<rparr>) \<and>
   set_config journal (always Commit_ok) key val (fresh s) =
     Some (Inr ((fresh s)\<lparr>store := s @ [(set_config_query, [Text key, val])],
                         commit_calls := 1\<rparr>)) \<and>
   (sql_tokens (get_config_query key) = config_select @ [Quoted key]) = (DQ \<notin> set key) \<and>
   sql_tokens (get_config_query (''a'' @ [DQ] @ ''b'')) =
     config_select @ [Quoted ''a'', Word ''b'', Unterminated] \<and>
   sql_tokens (get_config_query (''a'' @ [DQ, DQ] @ ''b'')) =
     config_select @ [Quoted (''a'' @ [DQ] @ ''b'')]"
proof (intro conjI)
  show "(get_config_query k1 = get_config_query k2) = (k1 = k2)"
    by (simp add: get_config_query_def)
  show "get_config journal key (fresh s) =
     Inr (Null, (fresh s)\<lparr>store := s @ [(get_config_query key, [])]\<rparr>)"
    by (simp add: get_config_def journal_def fetchone_def fresh_def)
  show "set_config journal (always Commit_ok) key val (fresh s) =
     Some (Inr ((fresh s)\<lparr>store := s @ [(set_config_query, [Text key, val])],
                         commit_calls := 1\<rparr>))"
    by (simp add: set_config_def set_config_statement_def journal_def fresh_def commit_ok_now
          always_def)
  show "(sql_tokens (get_config_query key) = config_select @ [Quoted key]) = (DQ \<notin> set key)"
    by (rule get_config_tokens_iff)
  show "sql_tokens (get_config_query (''a'' @ [DQ] @ ''b'')) =
     config_select @ [Quoted ''a'', Word ''b'', Unterminated]"
    by code_simp
  show "sql_tokens (get_config_query (''a'' @ [DQ, DQ] @ ''b'')) =
     config_select @ [Quoted (''a'' @ [DQ] @ ''b'')]"
    by code_simp
qed

text \<open>The theorem at the key \<^verbatim>\<open>test\<close>, and at the key \<^verbatim>\<open>a"b\<close>.\<close>

theorem get_config_text_depends_on_key_witness:
  "sql_tokens (get_config_query ''test'') = config_select @ [Quoted ''test''] \<and>
   sql_tokens (get_config_query (''a'' @ [DQ] @ ''b'')) \<noteq>
     config_select @ [Quoted (''a'' @ [DQ] @ ''b'')]"
proof -
  have p: "DQ \<notin> set ''test''" by simp
  have q: "DQ \<in> set (''a'' @ [DQ] @ ''b'')" by simp
  from get_config_text_depends_on_key [of _ _ "''test''"] p
  have 1: "sql_tokens (get_config_query ''test'') = config_select @ [Quoted ''test'']" by blast
  from get_config_text_depends_on_key [of _ _ "''a'' @ [DQ] @ ''b''"] q
  have 2: "sql_tokens (get_config_query (''a'' @ [DQ] @ ''b'')) \<noteq>
     config_select @ [Quoted (''a'' @ [DQ] @ ''b'')]" by blast
  from 1 2 show ?thesis by blast
qed

text \<open>
  Claim C8 as the specification words it fails: a key with a double quote need not
  change the form of the statement. The statement for the key \<^verbatim>\<open>a""b\<close> has the same
  eight kinds of token as the statement for \<^verbatim>\<open>ab\<close>, and \<^verbatim>\<open>get_config\<close> runs and returns the
  value stored under another key, \<^verbatim>\<open>a"b\<close>.
\<close>

theorem doubled_quote_counterexample:
  "sql_tokens (get_config_query (''a'' @ [DQ, DQ] @ ''b'')) =
     [Word ''select'', Word ''value'', Word ''from'', Word ''config'', Word ''where'',
      Word ''key'', Sym CHR ''='', Quoted (''a'' @ [DQ] @ ''b'')] \<and>
   sql_tokens (get_config_query ''ab'') =
     [Word ''select'', Word ''value'', Word ''from'', Word ''config'', Word ''where'',
      Word ''key'', Sym CHR ''='', Quoted ''ab''] \<and>
   get_config sqlite_model (''a'' @ [DQ, DQ] @ ''b'')
     (fresh (config_store [[Text (''a'' @ [DQ] @ ''b''), Text ''v'']])) =
     Inr (Text ''v'', fresh (config_store [[Text (''a'' @ [DQ] @ ''b''), Text ''v'']]))"
  by code_simp

text \<open>
  Claim C7 does not hold of the code for every key. \<^verbatim>\<open>set_config\<close> stores the key
  \<^verbatim>\<open>a"b\<close> as it binds it, but \<^verbatim>\<open>get_config\<close> writes it into the statement, which the
  engine then refuses: \<^verbatim>\<open>get_config\<close> raises, after the key was set and also when it was
  never set. And for the key \<^verbatim>\<open>key\<close>, never set, the quoted token is read as the
  column, every row matches, and \<^verbatim>\<open>get_config\<close> returns the value of another key.
\<close>

theorem get_config_breaks_on_quote:
  "set_config sqlite_model (always Commit_ok) (''a'' @ [DQ] @ ''b'') (Text ''v'')
     (fresh (config_store [])) =
     Some (Inr \<lparr>store = [(''config'', \<lparr>columns = [''key'', ''value''], key_columns = [''key''],
                             table_rows = [[Text (''a'' @ [DQ] @ ''b''), Text ''v'']],
                             next_rowid = 2\<rparr>)],
                commit_calls = 1, slept_ms = 0, log = []\<rparr>) \<and>
   get_config sqlite_model (''a'' @ [DQ] @ ''b'')
     \<lparr>store = [(''config'', \<lparr>columns = [''key'', ''value''], key_columns = [''key''],
                  table_rows = [[Text (''a'' @ [DQ] @ ''b''), Text ''v'']], next_rowid = 2\<rparr>)],
      commit_calls = 1, slept_ms = 0, log = []\<rparr> =
     Inl (OperationalError ''unrecognized token'') \<and>
   get_config sqlite_model (''a'' @ [DQ] @ ''b'') (fresh (config_store [])) =
     Inl (OperationalError ''unrecognized token'') \<and>
   get_config sqlite_model ''key'' (fresh (config_store [[Text ''a'', Text ''b'']])) =
     Inr (Text ''b'', fresh (config_store [[Text ''a'', Text ''b'']]))"
  by code_simp

text \<open>
  For other keys and values the model gives a round trip: when the key holds no double
  quote and is the name neither of a column nor of the row identifier, and the value is
  a text, a null or an integer of 64 bits, \<^verbatim>\<open>get_config\<close> after \<^verbatim>\<open>set_config\<close> returns the
  value as the text column stores it (an integer comes back as its decimal text), and
  the key has one row only. An integer of more than 64 bits is not stored at all.
\<close>

lemma set_config_parse:
  "parse (sql_tokens set_config_query) = Some (Insert_stmt True ''config'' (Some [''key'', ''value'']) 2)"
  "Unterminated \<notin> set (sql_tokens set_config_query)"
  "list_all covered (sql_tokens set_config_query)"
  by code_simp+

lemma get_config_parse:
  assumes "DQ \<notin> set key"
  shows "parse (sql_tokens (get_config_query key)) =
           Some (Select_stmt (Column ''value'') ''config'' ''key'' key)"
    and "Unterminated \<notin> set (sql_tokens (get_config_query key))"
    and "list_all covered (sql_tokens (get_config_query key))"
  by (simp_all add: get_config_tokens [OF assms] config_select_def parse_def parse_select_def
        parse_condition_def)

lemma set_config_plain:
  assumes "store st = [(''config'', tb)]" and "columns tb = [''key'', ''value'']"
    and "key_columns tb = [''key'']" and "env (commit_calls st) = Commit_ok"
    and "in_int64 val"
  shows "set_config sqlite_model env key val st =
           Some (Inr (st\<lparr>store := [(''config'',
                        tb\<lparr>table_rows := filter (\<lambda>r. field tb ''key'' r \<noteq> Text key) (table_rows tb)
                                              @ [[Text key, stored val]],
                           next_rowid := next_rowid tb + 1\<rparr>)],
                      commit_calls := Suc (commit_calls st)\<rparr>))"
proof -
  have k: "field tb ''key'' [Text key, stored val] = Text key"
    by (simp add: field_def assms(2))
  have sk: "\<And>r. same_key tb [Text key, stored val] r = (Text key = field tb ''key'' r)"
    by (simp add: same_key_def assms(3) k)
  have f: "filter (\<lambda>r. \<not> same_key tb [Text key, stored val] r) (table_rows tb) =
           filter (\<lambda>r. field tb ''key'' r \<noteq> Text key) (table_rows tb)"
    by (rule filter_cong) (auto simp: sk)
  have i: "in_int64 (Text key)" by (simp add: in_int64_def)
  have t: "stored (Text key) = Text key" by (simp add: stored_def)
  have "sqlite_model set_config_query [Text key, val] (store st) =
          Inr (\<lparr>result_rows = [], lastrowid = Some (next_rowid tb)\<rparr>,
               [(''config'',
                 tb\<lparr>table_rows := filter (\<lambda>r. field tb ''key'' r \<noteq> Text key) (table_rows tb)
                                       @ [[Text key, stored val]],
                    next_rowid := next_rowid tb + 1\<rparr>)])"
    by (simp add: sqlite_model_def set_config_parse run_insert_def rowid_name_def assms(1,2,5)
          Let_def f i t)
  then show ?thesis
    by (simp add: set_config_def set_config_statement_def commit_ok_now assms(4))
qed

lemma get_config_plain:
  assumes "DQ \<notin> set key"
    and "py_lower key \<notin> set [''key'', ''value'', ''rowid'', ''oid'', ''_rowid_'']"
    and "store st = [(''config'', tb)]" and "columns tb = [''key'', ''value'']"
  shows "get_config sqlite_model key st =
           Inr (case filter (\<lambda>r. field tb ''key'' r = Text key) (table_rows tb) of
                  [] \<Rightarrow> Null
                | r # rs \<Rightarrow> field tb ''value'' r, st)"
proof -
  have "sqlite_model (get_config_query key) [] (store st) =
          Inr (\<lparr>result_rows = map (\<lambda>r. [field tb ''value'' r])
                                (filter (\<lambda>r. field tb ''key'' r = Text key) (table_rows tb)),
                lastrowid = None\<rparr>, store st)"
    using assms(2)
    by (simp add: sqlite_model_def get_config_parse [OF assms(1)] run_select_def rowid_name_def
          assms(3,4) Let_def)
  then show ?thesis
    by (simp add: get_config_def fetchone_def split: list.splits)
qed

lemma config_round_trip_plain_key:
  assumes "DQ \<notin> set key"
    and "py_lower key \<notin> set [''key'', ''value'', ''rowid'', ''oid'', ''_rowid_'']"
    and "store st = [(''config'', tb)]" and "columns tb = [''key'', ''value'']"
    and "key_columns tb = [''key'']" and "env (commit_calls st) = Commit_ok"
    and "in_int64 val"
  shows "\<exists>st' tb'. set_config sqlite_model env key val st = Some (Inr st') \<and>
           store st' = [(''config'', tb')] \<and>
           get_config sqlite_model key st' = Inr (stored val, st') \<and>
           filter (\<lambda>r. field tb' ''key'' r = Text key) (table_rows tb') = [[Text key, stored val]]"
proof -
  let ?tb' = "tb\<lparr>table_rows := filter (\<lambda>r. field tb ''key'' r \<noteq> Text key) (table_rows tb)
                                      @ [[Text key, stored val]],
                   next_rowid := next_rowid tb + 1\<rparr>"
  let ?st' = "st\<lparr>store := [(''config'', ?tb')], commit_calls := Suc (commit_calls st)\<rparr>"
  have s: "set_config sqlite_model env key val st = Some (Inr ?st')"
    using assms(3,4,5,6,7) by (rule set_config_plain [of st tb env])
  have fld: "\<And>c r. field ?tb' c r = field tb c r" by (simp add: field_def)
  have k: "field tb ''key'' [Text key, stored val] = Text key"
    "field tb ''value'' [Text key, stored val] = stored val"
    by (simp_all add: field_def assms(4))
  have flt: "filter (\<lambda>r. field ?tb' ''key'' r = Text key) (table_rows ?tb') = [[Text key, stored val]]"
    by (simp add: fld k)
  have "get_config sqlite_model key ?st' =
          Inr (case filter (\<lambda>r. field ?tb' ''key'' r = Text key) (table_rows ?tb') of
                 [] \<Rightarrow> Null
               | r # rs \<Rightarrow> field ?tb' ''value'' r, ?st')"
    by (rule get_config_plain [OF assms(1,2)]) (simp_all add: assms(4))
  then have g: "get_config sqlite_model key ?st' = Inr (stored val, ?st')"
    unfolding flt by (simp add: fld k)
  from s g flt show ?thesis by (intro exI [of _ ?st'] exI [of _ ?tb']) simp
qed

lemma config_integer_read_as_text:
  "set_config sqlite_model (always Commit_ok) ''n'' (Integer 7) (fresh (config_store [])) =
     Some (Inr ((fresh (config_store [[Text ''n'', Text ''7'']]))\<lparr>commit_calls := 1\<rparr>)) \<and>
   get_config sqlite_model ''n'' ((fresh (config_store [[Text ''n'', Text ''7'']]))\<lparr>commit_calls := 1\<rparr>) =
     Inr (Text ''7'', (fresh (config_store [[Text ''n'', Text ''7'']]))\<lparr>commit_calls := 1\<rparr>) \<and>
   set_config sqlite_model (always Commit_ok) ''n'' (Integer (2 ^ 63)) (fresh (config_store [])) =
     Some (Inl (OverflowError ''Python int too large to convert to SQLite INTEGER''))"
  by code_simp

end
